theory Spec2Isabelle
  imports Main
begin

text \<open>
  A model of the two parts of the repository browser that carry its design: the rewriting
  of relative references in a fetched HTML document (\<open>rewrite.js\<close>), and the navigation
  state with its caches and its query-string encoding (\<open>main.js\<close>). What belongs to the
  browser (the HTML parser and serializer, the URL constructor) or to the network (the
  repository API) enters as a parameter.
\<close>

section \<open>JavaScript strings\<close>

text \<open>
  A JavaScript string is modelled as a \<^typ>\<open>string\<close>: each \<^typ>\<open>char\<close> stands for one
  UTF-16 code unit below 256 (the Latin-1 range). The string methods the program calls are
  written out below on that range.
\<close>

definition startsWith :: "string \<Rightarrow> string \<Rightarrow> bool" where
  "startsWith s p = (take (length p) s = p)"

definition endsWith :: "string \<Rightarrow> string \<Rightarrow> bool" where
  "endsWith s p = (length p \<le> length s \<and> drop (length s - length p) s = p)"

text \<open>White space of \<open>String.prototype.trim\<close> below code unit 256: TAB, LF, VT, FF, CR,
  SPACE and NO-BREAK SPACE.\<close>

definition isWhiteSpace :: "char \<Rightarrow> bool" where
  "isWhiteSpace c = (of_char c \<in> {9, 10, 11, 12, 13, 32, 160 :: nat})"

definition trim :: "string \<Rightarrow> string" where
  "trim s = rev (dropWhile isWhiteSpace (rev (dropWhile isWhiteSpace s)))"

text \<open>\<open>String.prototype.toLowerCase\<close> on the Latin-1 range: A-Z, and the accented capitals
  0xC0-0xDE except the multiplication sign 0xD7, move up by 32.\<close>

definition lowerChar :: "char \<Rightarrow> char" where
  "lowerChar c =
     (let n = (of_char c :: nat) in
      if (65 \<le> n \<and> n \<le> 90) \<or> (192 \<le> n \<and> n \<le> 222 \<and> n \<noteq> 215)
      then char_of (n + 32) else c)"

definition toLowerCase :: "string \<Rightarrow> string" where
  "toLowerCase s = map lowerChar s"

text \<open>\<open>s.split(sep)\<close> for a one-character separator: never the empty array
  (\<open>''.split('/')\<close> is \<open>['']\<close>).\<close>

fun str_split :: "char \<Rightarrow> string \<Rightarrow> string list" where
  "str_split sep [] = [[]]"
| "str_split sep (c # cs) =
     (if c = sep then [] # str_split sep cs
      else (case str_split sep cs of
              [] \<Rightarrow> [[c]]
            | p # ps \<Rightarrow> (c # p) # ps))"

text \<open>\<open>parts.join(sep)\<close>.\<close>

fun str_join :: "string \<Rightarrow> string list \<Rightarrow> string" where
  "str_join sep [] = []"
| "str_join sep [p] = p"
| "str_join sep (p # q # ps) = p @ sep @ str_join sep (q # ps)"

text \<open>\<open>parts.pop() || ''\<close>: the last element, or the empty string when the array is empty
  or its last element is.\<close>

definition pop_or_empty :: "string list \<Rightarrow> string" where
  "pop_or_empty ps = (case rev ps of [] \<Rightarrow> [] | p # _ \<Rightarrow> p)"

text \<open>\<open>parts.filter(Boolean)\<close> on an array of strings keeps the non-empty ones.\<close>

definition filter_Boolean :: "string list \<Rightarrow> string list" where
  "filter_Boolean ps = filter (\<lambda>p. p \<noteq> []) ps"

section \<open>rewrite.js: the Reference Classifier\<close>

text \<open>
  \<open>isAbsoluteOrSpecial(url)\<close>. The argument is what \<open>getAttribute\<close> hands over: a string, or
  \<open>null\<close> (\<^term>\<open>None\<close>), the one non-string value that reaches it.
\<close>

definition isAbsoluteOrSpecial :: "string option \<Rightarrow> bool" where
  "isAbsoluteOrSpecial url =
     (case url of
        None \<Rightarrow> True
      | Some u \<Rightarrow>
          if u = [] then True
          else (let t = trim u in
            if startsWith t ''http://'' \<or> startsWith t ''https://'' then True
            else if startsWith t ''#'' then True
            else if startsWith t ''data:'' then True
            else if startsWith t ''mailto:'' \<or> startsWith t ''tel:'' \<or> startsWith t ''javascript:''
            then True
            else False))"

section \<open>rewrite.js: the Reference Resolver\<close>

text \<open>
  \<open>new URL(relative, base).href\<close> is the platform's URL constructor, not code of the
  repository: it is a parameter of the model. It yields the serialized absolute location,
  or \<^term>\<open>None\<close> where the constructor throws.
\<close>

type_synonym url_ctor = "string \<Rightarrow> string \<Rightarrow> string option"

definition resolveUrl :: "url_ctor \<Rightarrow> string \<Rightarrow> string \<Rightarrow> string" where
  "resolveUrl U relative baseRawDirUrl =
     (let base = (if endsWith baseRawDirUrl ''/'' then baseRawDirUrl else baseRawDirUrl @ ''/'')
      in case U relative base of
           Some href \<Rightarrow> href
         | None \<Rightarrow> relative)"

section \<open>rewrite.js: the Document Rewriter\<close>

text \<open>
  The parsed document is the tree \<open>querySelectorAll\<close> walks: an element has a tag name, its
  attributes in order, and its children.
\<close>

type_synonym attrs = "(string \<times> string) list"

datatype node = Element string attrs "node list" | Text string

definition URL_ATTRS :: "(string \<times> string list) list" where
  "URL_ATTRS =
     [(''a'', [''href'']),
      (''img'', [''src'']),
      (''script'', [''src'']),
      (''link'', [''href'']),
      (''source'', [''src'']),
      (''video'', [''src'', ''poster'']),
      (''audio'', [''src''])]"

text \<open>\<open>el.getAttribute(name)\<close>: the value of the first attribute of that name, or \<open>null\<close>.\<close>

definition getAttribute :: "attrs \<Rightarrow> string \<Rightarrow> string option" where
  "getAttribute as name = map_of as name"

text \<open>\<open>el.setAttribute(name, value)\<close>: the first attribute of that name gets the value; a new
  attribute is appended when there is none.\<close>

fun setAttribute :: "attrs \<Rightarrow> string \<Rightarrow> string \<Rightarrow> attrs" where
  "setAttribute [] name v = [(name, v)]"
| "setAttribute ((k, w) # as) name v =
     (if k = name then (k, v) # as else (k, w) # setAttribute as name v)"

text \<open>The body of the innermost loop of \<open>rewriteDocument\<close>, for one element and one
  attribute name.\<close>

definition rewriteAttr :: "url_ctor \<Rightarrow> string \<Rightarrow> attrs \<Rightarrow> string \<Rightarrow> attrs" where
  "rewriteAttr U baseRawDirUrl as attr =
     (case getAttribute as attr of
        None \<Rightarrow> as
      | Some url \<Rightarrow>
          if url \<noteq> [] \<and> \<not> isAbsoluteOrSpecial (Some url)
          then setAttribute as attr (resolveUrl U url baseRawDirUrl)
          else as)"

text \<open>\<open>attrs[0]\<close> inside the template literal of the selector: the first name, and the text
  \<open>undefined\<close> for an empty array.\<close>

definition attr0 :: "string list \<Rightarrow> string" where
  "attr0 names = (case names of [] \<Rightarrow> ''undefined'' | a # _ \<Rightarrow> a)"

text \<open>One round of the outer loop: every element that matches the selector
  \<open>tag[attrs[0]]\<close> has each of the listed attributes looked at. The selection only reads tag
  names and the presence of attributes, which the rewriting never changes, so the round is a
  map over the tree.\<close>

fun rewriteTag :: "url_ctor \<Rightarrow> string \<Rightarrow> string \<Rightarrow> string list \<Rightarrow> node \<Rightarrow> node" where
  "rewriteTag U baseRawDirUrl tag names (Text s) = Text s"
| "rewriteTag U baseRawDirUrl tag names (Element t as cs) =
     Element t
       (if t = tag \<and> getAttribute as (attr0 names) \<noteq> None
        then fold (\<lambda>attr as'. rewriteAttr U baseRawDirUrl as' attr) names as
        else as)
       (map (rewriteTag U baseRawDirUrl tag names) cs)"

definition rewriteDocument :: "url_ctor \<Rightarrow> node \<Rightarrow> string \<Rightarrow> node" where
  "rewriteDocument U doc baseRawDirUrl =
     fold (\<lambda>(tag, names) d. rewriteTag U baseRawDirUrl tag names d) URL_ATTRS doc"

text \<open>
  \<open>rewriteHtml\<close>. The HTML parser (\<open>DOMParser.parseFromString(text, 'text/html')\<close>, read at
  \<open>documentElement\<close>) and the serializer (\<open>outerHTML\<close>) belong to the platform and are
  parameters: the parser is total on strings and always supplies a root element.
\<close>

definition rewriteHtml ::
  "(string \<Rightarrow> node) \<Rightarrow> (node \<Rightarrow> string) \<Rightarrow> url_ctor \<Rightarrow> string \<Rightarrow> string \<Rightarrow> string" where
  "rewriteHtml parseFromString outerHTML U htmlText baseRawDirUrl =
     ''<!DOCTYPE html>'' @ [CHR 0x0A] @
       outerHTML (rewriteDocument U (parseFromString htmlText) baseRawDirUrl)"

text \<open>The elements of a tree in document order, each with its attributes.\<close>

fun elements :: "node \<Rightarrow> (string \<times> attrs) list" where
  "elements (Text s) = []"
| "elements (Element t as cs) = (t, as) # concat (map elements cs)"

section \<open>api.js: what the controller sees of the remote API\<close>

text \<open>A thrown \<open>Error\<close>, with its message.\<close>

datatype error = Error (message: string)

text \<open>An entry of a directory listing, as \<open>listContents\<close> builds it.\<close>

record item =
  item_name :: string
  item_path :: string
  item_type :: string
  download_url :: "string option"

record repo_info =
  default_branch :: string
  full_name :: string

record file_content =
  text_of :: string
  rawUrl :: string

text \<open>
  The functions of \<open>api.js\<close> that \<open>main.js\<close> calls go to the network; the model takes
  the outcome of each call (the value the promise resolves to, or the error it rejects
  with) as given. A transition is handed the outcomes that hold while it runs, so two
  transitions may see different ones.

  \<open>getLatestCommitDate\<close> is called by \<open>openPath\<close> but is not among the functions of
  \<open>api.js\<close>: a lookup of the last-modified indicator of one path. Its outcome is a
  parameter like the others.
\<close>

record api =
  getRepoInfo :: "string \<Rightarrow> string \<Rightarrow> error + repo_info"
  listContents :: "string \<Rightarrow> string \<Rightarrow> string \<Rightarrow> string \<Rightarrow> error + item list"
  getFileContent :: "string \<Rightarrow> string \<Rightarrow> string \<Rightarrow> string \<Rightarrow> error + file_content"
  getLatestCommitDate :: "string \<Rightarrow> string \<Rightarrow> string \<Rightarrow> string \<Rightarrow> error + string"

text \<open>The calls that went out to the API, in the order they were issued.\<close>

datatype request =
    ReqRepoInfo string string
  | ReqListContents string string string string
  | ReqFileContent string string string string
  | ReqLatestCommitDate string string string string

section \<open>main.js: state\<close>

text \<open>
  The module's \<open>state\<close> object. A field that an object literal leaves out reads as
  \<open>undefined\<close>: that is \<^term>\<open>None\<close> for \<open>previewPath\<close> and \<open>fileDates\<close>, the two fields
  \<open>doLoadRepo\<close> leaves out.
\<close>

record nav_state =
  owner :: string
  repo :: string
  ref :: string
  path :: string
  previewPath :: "string option"
  listing :: "item list"
  fileDates :: "(string \<rightharpoonup> string) option"
  loaded :: bool

text \<open>The query string of \<open>window.location\<close>, as the name/value pairs of its
  \<open>URLSearchParams\<close>.\<close>

type_synonym params = "(string \<times> string) list"

text \<open>
  Everything the handlers of \<open>main.js\<close> read and write: the \<open>state\<close> object, the three
  caches, the query string, and the parts of the page \<open>ui.js\<close> sets (the error text, the
  items last handed to \<open>renderFileList\<close>, the breadcrumb segments, the loading flag, the two
  input fields). \<open>requests\<close> records the API calls issued so far.
\<close>

record app =
  state :: nav_state
  repoCache :: "string \<rightharpoonup> repo_info"
  listCache :: "string \<rightharpoonup> item list"
  fileCache :: "string \<rightharpoonup> string"
  query :: params
  errorMessage :: string
  fileList :: "item list"
  breadcrumb :: "string list"
  loading :: bool
  repoInput :: string
  branchInput :: string
  requests :: "request list"

definition initial_state :: nav_state where
  "initial_state =
     \<lparr>owner = [], repo = [], ref = [], path = [], previewPath = Some [], listing = [],
      fileDates = Some Map.empty, loaded = False\<rparr>"

definition initial_app :: "params \<Rightarrow> app" where
  "initial_app q =
     \<lparr>state = initial_state, repoCache = Map.empty, listCache = Map.empty,
      fileCache = Map.empty, query = q, errorMessage = [], fileList = [], breadcrumb = [],
      loading = False, repoInput = [], branchInput = [], requests = []\<rparr>"

subsection \<open>ui.js\<close>

definition showLoading :: "bool \<Rightarrow> app \<Rightarrow> app" where
  "showLoading b s = s\<lparr>loading := b\<rparr>"

definition showError :: "string \<Rightarrow> app \<Rightarrow> app" where
  "showError msg s = s\<lparr>errorMessage := msg\<rparr>"

definition clearError :: "app \<Rightarrow> app" where
  "clearError s = showError [] s"

definition renderBreadcrumb :: "string list \<Rightarrow> app \<Rightarrow> app" where
  "renderBreadcrumb segments s = s\<lparr>breadcrumb := segments\<rparr>"

text \<open>\<open>renderFileList(items, ...)\<close>: the rows shown are drawn from \<open>items\<close>; filtering and
  ordering are presentation.\<close>

definition renderFileList :: "item list \<Rightarrow> app \<Rightarrow> app" where
  "renderFileList items s = s\<lparr>fileList := items\<rparr>"

definition getRepoInput :: "app \<Rightarrow> string" where
  "getRepoInput s = trim (repoInput s)"

definition getBranchInput :: "app \<Rightarrow> string" where
  "getBranchInput s = trim (branchInput s)"

definition setRepoInput :: "string \<Rightarrow> app \<Rightarrow> app" where
  "setRepoInput v s = s\<lparr>repoInput := v\<rparr>"

definition setBranchInput :: "string \<Rightarrow> app \<Rightarrow> app" where
  "setBranchInput v s = s\<lparr>branchInput := v\<rparr>"

subsection \<open>The query string\<close>

text \<open>\<open>URLSearchParams\<close>: \<open>get\<close> reads the first pair of a name, \<open>set\<close> overwrites the first
  pair and drops the others (appending when there is none), \<open>delete\<close> drops them all.\<close>

definition params_get :: "params \<Rightarrow> string \<Rightarrow> string option" where
  "params_get q name = map_of q name"

definition params_delete :: "params \<Rightarrow> string \<Rightarrow> params" where
  "params_delete q name = filter (\<lambda>(k, v). k \<noteq> name) q"

fun params_set :: "params \<Rightarrow> string \<Rightarrow> string \<Rightarrow> params" where
  "params_set [] name v = [(name, v)]"
| "params_set ((k, w) # q) name v =
     (if k = name then (k, v) # params_delete q name else (k, w) # params_set q name v)"

definition applyStateToUrl :: "app \<Rightarrow> app" where
  "applyStateToUrl s =
     (let st = state s;
          q1 = (if owner st \<noteq> [] \<and> repo st \<noteq> []
                then params_set (query s) ''repo'' (owner st @ ''/'' @ repo st)
                else params_delete (query s) ''repo'');
          q2 = (if ref st \<noteq> [] then params_set q1 ''ref'' (ref st)
                else params_delete q1 ''ref'');
          q3 = (if path st \<noteq> [] then params_set q2 ''path'' (path st)
                else params_delete q2 ''path'')
      in s\<lparr>query := q3\<rparr>)"

text \<open>\<open>params.get(name) || ''\<close>.\<close>

definition get_or_empty :: "params \<Rightarrow> string \<Rightarrow> string" where
  "get_or_empty q name = (case params_get q name of None \<Rightarrow> [] | Some v \<Rightarrow> v)"

text \<open>\<open>parseQueryParams\<close> returns \<open>{ owner, repo, ref, path }\<close>, here as a tuple in that
  order.\<close>

definition parseQueryParams :: "params \<Rightarrow> string \<times> string \<times> string \<times> string" where
  "parseQueryParams q =
     (let repo = get_or_empty q ''repo'';
          ref = get_or_empty q ''ref'';
          path = get_or_empty q ''path'';
          (owner, repoName) =
            (if repo \<noteq> [] then
               (let parts = filter_Boolean (str_split CHR ''/'' repo)
                in if length parts \<ge> 2 then (parts ! 0, str_join ''/'' (drop 1 parts))
                   else if length parts = 1 then (parts ! 0, [])
                   else ([], []))
             else ([], []))
      in (owner, repoName, ref, path))"

section \<open>main.js: the Content Cache\<close>

definition cacheKey :: "string \<Rightarrow> string \<Rightarrow> string \<Rightarrow> string \<Rightarrow> string" where
  "cacheKey owner' repo' path' ref' = owner' @ ''/'' @ repo' @ '':'' @ ref' @ '':'' @ path'"

definition issue :: "request \<Rightarrow> app \<Rightarrow> app" where
  "issue r s = s\<lparr>requests := requests s @ [r]\<rparr>"

text \<open>Each loader returns what its promise settles to, and the module state after it.\<close>

definition loadRepoInfo :: "api \<Rightarrow> string \<Rightarrow> string \<Rightarrow> app \<Rightarrow> (error + repo_info) \<times> app" where
  "loadRepoInfo A owner' repo' s =
     (let key = owner' @ ''/'' @ repo' in
      case repoCache s key of
        Some info \<Rightarrow> (Inr info, s)
      | None \<Rightarrow>
          (let s' = issue (ReqRepoInfo owner' repo') s in
           case getRepoInfo A owner' repo' of
             Inl e \<Rightarrow> (Inl e, s')
           | Inr info \<Rightarrow> (Inr info, s'\<lparr>repoCache := (repoCache s')(key \<mapsto> info)\<rparr>)))"

definition loadListing ::
  "api \<Rightarrow> string \<Rightarrow> string \<Rightarrow> string \<Rightarrow> string \<Rightarrow> app \<Rightarrow> (error + item list) \<times> app" where
  "loadListing A owner' repo' path' ref' s =
     (let key = cacheKey owner' repo' path' ref' in
      case listCache s key of
        Some items \<Rightarrow> (Inr items, s)
      | None \<Rightarrow>
          (let s' = issue (ReqListContents owner' repo' path' ref') s in
           case listContents A owner' repo' path' ref' of
             Inl e \<Rightarrow> (Inl e, s')
           | Inr items \<Rightarrow> (Inr items, s'\<lparr>listCache := (listCache s')(key \<mapsto> items)\<rparr>)))"

definition loadFileContent ::
  "api \<Rightarrow> string \<Rightarrow> string \<Rightarrow> string \<Rightarrow> string \<Rightarrow> app \<Rightarrow> (error + string) \<times> app" where
  "loadFileContent A owner' repo' path' ref' s =
     (let key = cacheKey owner' repo' path' ref' in
      case fileCache s key of
        Some txt \<Rightarrow> (Inr txt, s)
      | None \<Rightarrow>
          (let s' = issue (ReqFileContent owner' repo' path' ref') s in
           case getFileContent A owner' repo' path' ref' of
             Inl e \<Rightarrow> (Inl e, s')
           | Inr fc \<Rightarrow> (Inr (text_of fc), s'\<lparr>fileCache := (fileCache s')(key \<mapsto> text_of fc)\<rparr>)))"

section \<open>main.js: the Navigation Controller\<close>

text \<open>
  A handler is modelled as running from its call to the settling of its promise without
  another handler in between.
\<close>

text \<open>\<open>Object.fromEntries(entries)\<close>: the entries are defined in order, a later one of the
  same key replacing the earlier.\<close>

definition fromEntries :: "(string \<times> string) list \<Rightarrow> (string \<rightharpoonup> string)" where
  "fromEntries entries = fold (\<lambda>(k, v) m. m(k \<mapsto> v)) entries Map.empty"

text \<open>\<open>Promise.all\<close> over the per-entry lookups: all of them are started, in the order of
  the entries; the batch resolves to the list of pairs when every lookup resolves, and
  rejects when one rejects. When several reject, the model reports the first in the order of
  the entries.\<close>

fun all_dates :: "(string \<times> (error + string)) list \<Rightarrow> error + (string \<times> string) list" where
  "all_dates [] = Inr []"
| "all_dates ((p, Inl e) # rest) = Inl e"
| "all_dates ((p, Inr d) # rest) =
     (case all_dates rest of Inl e \<Rightarrow> Inl e | Inr ds \<Rightarrow> Inr ((p, d) # ds))"

text \<open>The \<open>catch\<close> block of \<open>openPath\<close>, followed by its \<open>finally\<close>.\<close>

definition openPath_catch :: "error \<Rightarrow> app \<Rightarrow> app" where
  "openPath_catch e s =
     (let s1 = showError (if message e \<noteq> [] then message e else ''Failed to load'') s;
          s2 = s1\<lparr>state := (state s1)\<lparr>fileDates := Some Map.empty\<rparr>\<rparr>;
          s3 = renderFileList [] s2
      in showLoading False s3)"

text \<open>The statements of \<open>openPath\<close> between its guard and its \<open>try\<close>.\<close>

definition openPath_start :: "string \<Rightarrow> app \<Rightarrow> app" where
  "openPath_start p s0 =
     (let s1 = s0\<lparr>state := (state s0)\<lparr>path := p\<rparr>\<rparr>;
          s2 = applyStateToUrl s1;
          s3 = renderBreadcrumb (if p \<noteq> [] then str_split CHR ''/'' p else []) s2
      in clearError (showLoading True s3))"

definition openPath :: "api \<Rightarrow> string \<Rightarrow> app \<Rightarrow> app" where
  "openPath A p s0 =
     (if \<not> loaded (state s0) \<or> owner (state s0) = [] \<or> repo (state s0) = [] then s0
      else
        (let s4 = openPath_start p s0;
             st = state s4
         in case loadListing A (owner st) (repo st) p (ref st) s4 of
              (Inl e, s5) \<Rightarrow> openPath_catch e s5
            | (Inr items, s5) \<Rightarrow>
                (let s6 = s5\<lparr>state := (state s5)\<lparr>listing := items\<rparr>\<rparr>;
                     s7 = s6\<lparr>requests := requests s6 @
                            map (\<lambda>it. ReqLatestCommitDate (owner st) (repo st) (item_path it) (ref st))
                              items\<rparr>
                 in case all_dates
                           (map (\<lambda>it. (item_path it,
                                   getLatestCommitDate A (owner st) (repo st) (item_path it) (ref st)))
                              items) of
                      Inl e \<Rightarrow> openPath_catch e s7
                    | Inr dateEntries \<Rightarrow>
                        (let s8 = s7\<lparr>state := (state s7)\<lparr>fileDates := Some (fromEntries dateEntries)\<rparr>\<rparr>
                         in showLoading False (renderFileList items s8)))))"

text \<open>The extension test of \<open>onSelect\<close>: the text after the last dot of the last path
  segment, in lower case, is \<open>html\<close> or \<open>htm\<close>.\<close>

definition ext_of :: "string \<Rightarrow> string" where
  "ext_of itemPath =
     (let name = pop_or_empty (str_split CHR ''/'' itemPath)
      in toLowerCase (pop_or_empty (str_split CHR ''.'' name)))"

definition onSelect :: "api \<Rightarrow> string \<Rightarrow> string \<Rightarrow> app \<Rightarrow> app" where
  "onSelect A itemPath type s =
     (if type = ''dir'' then openPath A itemPath s
      else
        (let ext = ext_of itemPath in
         if ext \<noteq> ''html'' \<and> ext \<noteq> ''htm''
         then showError ''Only .html / .htm files can be previewed.'' s
         else
           (let s1 = clearError s;
                s2 = s1\<lparr>state := (state s1)\<lparr>previewPath := Some itemPath\<rparr>\<rparr>
            in renderFileList (listing (state s2)) s2)))"

text \<open>\<open>doLoadRepo\<close> rejects when \<open>loadRepoInfo\<close> does (there is no \<open>catch\<close>, only the
  \<open>finally\<close>); \<open>openPath\<close> never rejects.\<close>

definition doLoadRepo :: "api \<Rightarrow> app \<Rightarrow> (error + unit) \<times> app" where
  "doLoadRepo A s0 =
     (let input = getRepoInput s0;
          branch = getBranchInput s0;
          parts = filter_Boolean (map trim (str_split CHR ''/'' input))
      in if length parts < 2
         then (Inr (), showError ''Enter owner/repo (e.g. adalenv/some-repo)'' s0)
         else
           (let ownr = parts ! 0;
                rpo = str_join ''/'' (drop 1 parts);
                s1 = showLoading True (clearError s0)
            in case loadRepoInfo A ownr rpo s1 of
                 (Inl e, s2) \<Rightarrow> (Inl e, showLoading False s2)
               | (Inr info, s2) \<Rightarrow>
                   (let rf = (if branch \<noteq> [] then branch else default_branch info);
                        s3 = s2\<lparr>state :=
                               \<lparr>owner = ownr, repo = rpo, ref = rf, path = [],
                                previewPath = None, listing = [], fileDates = None,
                                loaded = True\<rparr>\<rparr>;
                        s4 = setRepoInput (ownr @ ''/'' @ rpo) (setBranchInput rf s3);
                        s5 = applyStateToUrl s4;
                        s6 = openPath A [] s5
                    in (Inr (), showLoading False s6))))"

text \<open>\<open>path.replace(/\/[^/]+$/, '')\<close>: a final \<open>/segment\<close> with a non-empty segment is cut
  off.\<close>

definition strip_last_segment :: "string \<Rightarrow> string" where
  "strip_last_segment p =
     (let segs = str_split CHR ''/'' p
      in if length segs \<ge> 2 \<and> last segs \<noteq> [] then str_join ''/'' (butlast segs) else p)"

definition initFromUrl :: "api \<Rightarrow> app \<Rightarrow> app" where
  "initFromUrl A s0 =
     (case parseQueryParams (query s0) of
        (ownr, rpo, rf, p) \<Rightarrow>
          if ownr = [] \<or> rpo = [] then s0
          else
            (let s1 = setBranchInput rf (setRepoInput (ownr @ ''/'' @ rpo) s0)
             in case doLoadRepo A s1 of
                  (Inl e, s2) \<Rightarrow> s2
                | (Inr u, s2) \<Rightarrow>
                    if p \<noteq> [] \<and> (endsWith p ''.html'' \<or> endsWith p ''.htm'')
                    then
                      (let dirPath = (if CHR ''/'' \<in> set p then strip_last_segment p else [])
                       in onSelect A p ''file'' (openPath A dirPath s2))
                    else if p \<noteq> [] then openPath A p s2
                    else s2))"

text \<open>The \<open>popstate\<close> listener; the browser has already put the history entry's query string
  in place.\<close>

definition onPopState :: "api \<Rightarrow> app \<Rightarrow> app" where
  "onPopState A s =
     (case parseQueryParams (query s) of
        (ownr, rpo, rf, p) \<Rightarrow>
          if ownr = [] \<or> rpo = [] then s
          else
            openPath A p
              (s\<lparr>state := (state s)\<lparr>owner := ownr, repo := rpo, ref := rf, path := p,
                                    loaded := True\<rparr>\<rparr>))"

text \<open>
  What can happen to the page: the user edits the two input fields and loads, opens a path
  (a breadcrumb segment), clicks a row, types into the filter field, or moves in the
  history; \<open>init\<close> reads the URL once.
\<close>

datatype event =
    LoadRepo string string
  | OpenPath string
  | Select string string
  | FilterInput string
  | PopState params
  | InitFromUrl

fun step :: "api \<Rightarrow> event \<Rightarrow> app \<Rightarrow> app" where
  "step A (LoadRepo r b) s = snd (doLoadRepo A (s\<lparr>repoInput := r, branchInput := b\<rparr>))"
| "step A (OpenPath p) s = openPath A p s"
| "step A (Select p t) s = onSelect A p t s"
| "step A (FilterInput v) s = renderFileList (listing (state s)) s"
| "step A (PopState q) s = onPopState A (s\<lparr>query := q\<rparr>)"
| "step A InitFromUrl s = initFromUrl A s"

text \<open>A run of the page: the events in order, each with the API outcomes that hold while
  its handler runs.\<close>

fun run :: "(api \<times> event) list \<Rightarrow> app \<Rightarrow> app" where
  "run [] s = s"
| "run ((A, ev) # rest) s = run rest (step A ev s)"

section \<open>Notions used in the statements\<close>

subsection \<open>Rewriter\<close>

text \<open>Two attribute lists of the same names in the same order, where every value the
  Classifier marks special is the same on both sides.\<close>

definition special_kept :: "attrs \<Rightarrow> attrs \<Rightarrow> bool" where
  "special_kept as as' =
     list_all2 (\<lambda>(k, v) (k', v'). k' = k \<and> (isAbsoluteOrSpecial (Some v) \<longrightarrow> v' = v)) as as'"

text \<open>Two element sequences of the same tags, element by element related by
  \<^const>\<open>special_kept\<close>.\<close>

definition same_elements :: "(string \<times> attrs) list \<Rightarrow> (string \<times> attrs) list \<Rightarrow> bool" where
  "same_elements es es' = list_all2 (\<lambda>(t, as) (t', as'). t' = t \<and> special_kept as as') es es'"

text \<open>The spec's wording of the base the Resolver resolves against: the base, with a
  trailing separator appended if absent.\<close>

definition with_trailing_separator :: "string \<Rightarrow> string" where
  "with_trailing_separator b = (if b \<noteq> [] \<and> last b = CHR ''/'' then b else b @ ''/'')"

text \<open>
  A sample URL constructor for the plainest inputs: an \<open>http\<close> or \<open>https\<close> base with a
  host, and a reference made of path segments. The text after the base's last \<open>/\<close> is
  dropped, the reference's segments are appended, \<open>.\<close> is skipped and \<open>..\<close> removes the
  segment before it. It throws on any other base.
\<close>

fun remove_dot_segments :: "string list \<Rightarrow> string list \<Rightarrow> string list" where
  "remove_dot_segments acc [] = rev acc"
| "remove_dot_segments acc (s # ss) =
     (if s = ''.'' then remove_dot_segments acc ss
      else if s = ''..'' then remove_dot_segments (tl acc) ss
      else remove_dot_segments (s # acc) ss)"

definition sample_URL :: url_ctor where
  "sample_URL relative base =
     (let scheme = (if startsWith base ''https://'' then ''https://''
                    else if startsWith base ''http://'' then ''http://'' else [])
      in if scheme = [] then None
         else
           (let segs = str_split CHR ''/'' (drop (length scheme) base);
                host = hd segs;
                dir = butlast (tl segs)
            in if host = [] then None
               else Some (scheme @ host @ ''/'' @
                      str_join ''/'' (remove_dot_segments [] (dir @ str_split CHR ''/'' relative)))))"

text \<open>A sample document: a poster-only video, a video with both attributes, an anchor to a
  fragment, and an image.\<close>

definition sample_doc :: node where
  "sample_doc =
     Element ''html'' []
       [Element ''body'' []
          [Element ''video'' [(''poster'', ''p.png'')] [],
           Element ''video'' [(''src'', ''v.mp4''), (''poster'', ''data:image/png;base64,AA'')] [],
           Element ''a'' [(''href'', ''#top'')] [Text ''top''],
           Element ''img'' [(''alt'', ''logo''), (''src'', ''https://cdn.example/logo.png'')] []]]"

subsection \<open>Sample API outcomes and listings\<close>

definition entry :: "string \<Rightarrow> string \<Rightarrow> string \<Rightarrow> item" where
  "entry n p t = \<lparr>item_name = n, item_path = p, item_type = t, download_url = None\<rparr>"

definition root_items :: "item list" where
  "root_items = [entry ''index.html'' ''index.html'' ''file'', entry ''sub'' ''sub'' ''dir'']"

definition sub_items :: "item list" where
  "sub_items = [entry ''a.txt'' ''sub/a.txt'' ''file'']"

definition not_found :: error where
  "not_found = Error ''Not found. Check owner/repo, branch, and path.''"

text \<open>A repository with \<open>index.html\<close> and the directory \<open>sub\<close> at its root, \<open>sub/a.txt\<close>
  below, and nothing else; every lookup of a date answers.\<close>

definition api_up :: api where
  "api_up =
     \<lparr>getRepoInfo = (\<lambda>o' r. Inr \<lparr>default_branch = ''main'', full_name = o' @ ''/'' @ r\<rparr>),
      listContents = (\<lambda>o' r p f.
         if p = [] then Inr root_items
         else if p = ''sub'' then Inr sub_items
         else Inl not_found),
      getFileContent = (\<lambda>o' r p f.
         if p = ''index.html''
         then Inr \<lparr>text_of = ''<a href=x>x</a>'',
                   rawUrl = ''https://raw.githubusercontent.com/o/r/main/index.html''\<rparr>
         else Inl not_found),
      getLatestCommitDate = (\<lambda>o' r p f. Inr ''2024-01-01'')\<rparr>"

text \<open>The same repository while the lookup of dates fails.\<close>

definition api_dates_down :: api where
  "api_dates_down = api_up\<lparr>getLatestCommitDate := (\<lambda>o' r p f. Inl (Error ''rate limit''))\<rparr>"

text \<open>Every call fails.\<close>

definition api_down :: api where
  "api_down =
     \<lparr>getRepoInfo = (\<lambda>o' r. Inl not_found),
      listContents = (\<lambda>o' r p f. Inl not_found),
      getFileContent = (\<lambda>o' r p f. Inl not_found),
      getLatestCommitDate = (\<lambda>o' r p f. Inl not_found)\<rparr>"

subsection \<open>Navigation state\<close>

text \<open>A path the extension test of \<open>onSelect\<close> lets through.\<close>

definition previewable :: "string \<Rightarrow> bool" where
  "previewable p = (ext_of p = ''html'' \<or> ext_of p = ''htm'')"

text \<open>The invariant in the spec's words: \<open>previewPath\<close>, when set, is the path of a
  file-kind entry of \<open>listing\<close> whose name has a previewable extension.\<close>

definition claimed_preview_inv :: "nav_state \<Rightarrow> bool" where
  "claimed_preview_inv st =
     (case previewPath st of
        None \<Rightarrow> True
      | Some p \<Rightarrow>
          p = [] \<or>
          list_ex (\<lambda>it. item_path it = p \<and> item_type it = ''file'' \<and> previewable (item_name it))
            (listing st))"

text \<open>What the transitions keep: \<open>previewPath\<close>, when set, passes the extension test.\<close>

definition preview_inv :: "nav_state \<Rightarrow> bool" where
  "preview_inv st =
     (case previewPath st of
        None \<Rightarrow> True
      | Some p \<Rightarrow> p = [] \<or> previewable p)"

text \<open>The shape of the coordinates the handlers store: an owner without a slash, and a
  repository name whose slash-separated segments are all non-empty.\<close>

definition coord_ok :: "string \<Rightarrow> string \<Rightarrow> bool" where
  "coord_ok o' r =
     (o' \<noteq> [] \<and> CHR ''/'' \<notin> set o' \<and> r \<noteq> [] \<and> [] \<notin> set (str_split CHR ''/'' r))"

definition coord_inv :: "nav_state \<Rightarrow> bool" where
  "coord_inv st = ((owner st = [] \<and> repo st = []) \<or> coord_ok (owner st) (repo st))"

text \<open>The page after loading \<open>o/r\<close> from a fresh start, and after then clicking the row
  \<open>index.html\<close>.\<close>

definition loaded_app :: app where
  "loaded_app = step api_up (LoadRepo ''o/r'' []) (initial_app [])"

definition previewing_app :: app where
  "previewing_app = step api_up (Select ''index.html'' ''file'') loaded_app"

subsection \<open>The Rewriter, element by element\<close>

text \<open>What one round of \<open>rewriteDocument\<close> does to an element, and what all rounds together
  do: the registry entry of the element's tag decides, and the element is touched only if
  it carries the first attribute of that entry.\<close>

definition rewriteRound :: "url_ctor \<Rightarrow> string \<Rightarrow> string \<Rightarrow> string list \<Rightarrow> string \<times> attrs \<Rightarrow> string \<times> attrs" where
  "rewriteRound U b tag names e =
     (case e of (t, as) \<Rightarrow>
        (t, if t = tag \<and> getAttribute as (attr0 names) \<noteq> None
            then fold (\<lambda>attr as'. rewriteAttr U b as' attr) names as
            else as))"

definition rewriteElement :: "url_ctor \<Rightarrow> string \<Rightarrow> string \<times> attrs \<Rightarrow> string \<times> attrs" where
  "rewriteElement U b e =
     (case map_of URL_ATTRS (fst e) of
        None \<Rightarrow> e
      | Some names \<Rightarrow> rewriteRound U b (fst e) names e)"

text \<open>A document without rewritable references: on every element of a registered kind,
  each listed attribute is absent or marked special.\<close>

definition no_rewritable :: "node \<Rightarrow> bool" where
  "no_rewritable d =
     list_all (\<lambda>(t, as).
        case map_of URL_ATTRS t of
          None \<Rightarrow> True
        | Some names \<Rightarrow> list_all (\<lambda>attr. isAbsoluteOrSpecial (getAttribute as attr)) names)
       (elements d)"

section \<open>Strings\<close>

lemma startsWith_Nil [simp]: "startsWith s []"
  by (simp add: startsWith_def)

lemma startsWith_Cons [simp]: "startsWith (c # s) (d # q) = (c = d \<and> startsWith s q)"
  by (auto simp: startsWith_def)

lemma startsWith_Nil_Cons [simp]: "startsWith [] (d # q) = False"
  by (simp add: startsWith_def)

lemma trim_keeps_prefix:
  assumes "p \<noteq> []" "\<not> isWhiteSpace (hd p)" "\<not> isWhiteSpace (last p)"
  shows "trim (p @ rest) = p @ rev (dropWhile isWhiteSpace (rev rest))"
proof -
  have d: "dropWhile isWhiteSpace (p @ rest) = p @ rest"
    using assms(1,2) by (cases p) auto
  have "rev (p @ rest) = rev rest @ rev (butlast p @ [last p])"
    using assms(1) by simp
  then have r: "rev (p @ rest) = rev rest @ last p # rev (butlast p)"
    by simp
  have "dropWhile isWhiteSpace (rev (p @ rest)) =
        dropWhile isWhiteSpace (rev rest) @ last p # rev (butlast p)"
    unfolding r using assms(3) by (rule dropWhile_append3)
  then show ?thesis
    unfolding trim_def d using assms(1) by simp
qed

lemma lowerChar_ws: "isWhiteSpace c \<Longrightarrow> lowerChar c = c"
  by (auto simp: isWhiteSpace_def lowerChar_def)

lemma lowerChar_fix:
  "lowerChar CHR ''#'' = CHR ''#''" "lowerChar CHR ''d'' = CHR ''d''"
  "lowerChar CHR ''m'' = CHR ''m''" "lowerChar CHR ''t'' = CHR ''t''"
  "lowerChar CHR ''j'' = CHR ''j''" "lowerChar CHR ''h'' = CHR ''h''"
  "lowerChar CHR ''s'' = CHR ''s''" "lowerChar CHR '':'' = CHR '':''"
  "lowerChar CHR ''/'' = CHR ''/''" "lowerChar CHR ''p'' = CHR ''p''"
  by (simp_all add: lowerChar_def)

section \<open>The Reference Classifier\<close>

lemma scheme_case:
  assumes low: "toLowerCase sch = p" and ne: "sch \<noteq> p"
    and p: "p = ''http://'' \<or> p = ''https://''"
  shows "\<not> isAbsoluteOrSpecial (Some (sch @ rest))"
proof -
  from low p obtain c cs where sch: "sch = c # cs" and c: "lowerChar c = CHR ''h''"
    by (auto simp: toLowerCase_def)
  from low p have l: "sch \<noteq> []" "lowerChar (last sch) = CHR ''/''"
    by (auto simp: toLowerCase_def)
  have nws: "\<And>x y. lowerChar x = y \<Longrightarrow> \<not> isWhiteSpace y \<Longrightarrow> \<not> isWhiteSpace x"
    using lowerChar_ws by metis
  have "\<not> isWhiteSpace c"
    by (rule nws[OF c]) (simp add: isWhiteSpace_def)
  moreover have "\<not> isWhiteSpace (last sch)"
    by (rule nws[OF l(2)]) (simp add: isWhiteSpace_def)
  ultimately obtain r where t: "trim (sch @ rest) = sch @ r"
    using trim_keeps_prefix[of sch rest] sch by auto
  have first: "c \<noteq> CHR ''#''" "c \<noteq> CHR ''d''" "c \<noteq> CHR ''m''" "c \<noteq> CHR ''t''" "c \<noteq> CHR ''j''"
    using c by (auto simp: lowerChar_fix)
  have a: "\<not> startsWith (sch @ r) ''http://''"
    using low ne p by (auto simp: toLowerCase_def lowerChar_fix)
  have b: "\<not> startsWith (sch @ r) ''https://''"
    using low ne p by (auto simp: toLowerCase_def lowerChar_fix)
  have others: "\<not> startsWith (sch @ r) ''#''" "\<not> startsWith (sch @ r) ''data:''"
    "\<not> startsWith (sch @ r) ''mailto:''" "\<not> startsWith (sch @ r) ''tel:''"
    "\<not> startsWith (sch @ r) ''javascript:''"
    using first by (simp_all add: sch)
  show ?thesis
    using a b others l(1)
    by (simp add: isAbsoluteOrSpecial_def t Let_def del: startsWith_Cons)
qed

lemma protocol_relative: "\<not> isAbsoluteOrSpecial (Some (''//'' @ rest))"
proof -
  have "trim (''//'' @ rest) = ''//'' @ rev (dropWhile isWhiteSpace (rev rest))"
    by (rule trim_keeps_prefix) (simp_all add: isWhiteSpace_def)
  then show ?thesis
    by (simp add: isAbsoluteOrSpecial_def)
qed

text \<open>
  C10. The absolute-scheme test is a case-sensitive match on the lower-case prefixes: a
  reference that begins with \<open>http://\<close> or \<open>https://\<close> in any other capitalisation
  (\<open>HTTP://host/x\<close>), and a protocol-relative reference beginning with \<open>//\<close>, is not marked
  special, so the Rewriter treats it as rewritable.
\<close>

theorem classifier_scheme_is_case_sensitive:
  assumes "toLowerCase sch = ''http://'' \<or> toLowerCase sch = ''https://''"
    and "sch \<noteq> toLowerCase sch"
  shows "\<not> isAbsoluteOrSpecial (Some (sch @ rest)) \<and>
         \<not> isAbsoluteOrSpecial (Some (''//'' @ rest'))"
  using assms scheme_case[of sch "toLowerCase sch" rest] protocol_relative[of rest']
  by auto

theorem classifier_scheme_is_case_sensitive_witness:
  "toLowerCase ''HTTP://'' = ''http://'' \<and> ''HTTP://'' \<noteq> toLowerCase ''HTTP://'' \<and>
   \<not> isAbsoluteOrSpecial (Some ''HTTP://host/x'') \<and>
   \<not> isAbsoluteOrSpecial (Some ''//cdn.example/x.js'')"
proof -
  have l: "toLowerCase ''HTTP://'' = ''http://''"
    by code_simp
  have "\<not> isAbsoluteOrSpecial (Some (''HTTP://'' @ ''host/x'')) \<and>
        \<not> isAbsoluteOrSpecial (Some (''//'' @ ''cdn.example/x.js''))"
    by (rule classifier_scheme_is_case_sensitive) (simp_all add: l)
  with l show ?thesis by simp
qed

section \<open>The Reference Resolver\<close>

lemma endsWith_slash: "endsWith b ''/'' = (b \<noteq> [] \<and> last b = CHR ''/'')"
proof (cases b rule: rev_cases)
  case Nil
  then show ?thesis by (simp add: endsWith_def)
next
  case (snoc ys y)
  then show ?thesis by (auto simp: endsWith_def)
qed

lemma resolveUrl_eq:
  "resolveUrl U r b = (case U r (with_trailing_separator b) of Some h \<Rightarrow> h | None \<Rightarrow> r)"
  by (simp add: resolveUrl_def with_trailing_separator_def endsWith_slash)

text \<open>
  C5. \<open>resolveUrl r b\<close> is the URL constructor's resolution of \<open>r\<close> against \<open>b\<close> with a trailing
  separator appended to \<open>b\<close> if absent; so where the constructor resolves \<open>../x.css\<close>
  against \<open>https://h/o/r/ref/dir/\<close> to \<open>https://h/o/r/ref/x.css\<close>, that is the result for the
  base \<open>https://h/o/r/ref/dir\<close>; and where the constructor throws, the reference comes back
  unchanged: \<open>resolveUrl\<close> itself never throws.
\<close>

theorem resolveUrl_appends_separator_and_never_throws:
  "resolveUrl U r b = (case U r (with_trailing_separator b) of Some h \<Rightarrow> h | None \<Rightarrow> r) \<and>
   (U ''../x.css'' ''https://h/o/r/ref/dir/'' = Some ''https://h/o/r/ref/x.css'' \<longrightarrow>
      resolveUrl U ''../x.css'' ''https://h/o/r/ref/dir'' = ''https://h/o/r/ref/x.css'') \<and>
   (U r (with_trailing_separator b) = None \<longrightarrow> resolveUrl U r b = r)"
  by (simp add: resolveUrl_eq with_trailing_separator_def)

theorem resolveUrl_appends_separator_and_never_throws_witness:
  "sample_URL ''../x.css'' ''https://h/o/r/ref/dir/'' = Some ''https://h/o/r/ref/x.css'' \<and>
   resolveUrl sample_URL ''../x.css'' ''https://h/o/r/ref/dir'' = ''https://h/o/r/ref/x.css'' \<and>
   sample_URL ''x.css'' (with_trailing_separator ''nowhere'') = None \<and>
   resolveUrl sample_URL ''x.css'' ''nowhere'' = ''x.css''"
proof -
  have a: "sample_URL ''../x.css'' ''https://h/o/r/ref/dir/'' = Some ''https://h/o/r/ref/x.css''"
    by (simp add: sample_URL_def)
  have b: "sample_URL ''x.css'' (with_trailing_separator ''nowhere'') = None"
    by (simp add: sample_URL_def with_trailing_separator_def)
  show ?thesis
    using a b
      resolveUrl_appends_separator_and_never_throws[of sample_URL "''x.css''" "''nowhere''"]
    by simp
qed

section \<open>The Document Rewriter\<close>

lemma special_kept_refl: "special_kept as as"
  by (simp add: special_kept_def list_all2_refl case_prod_beta)

lemma special_kept_trans:
  assumes "special_kept as bs" "special_kept bs cs"
  shows "special_kept as cs"
  using assms unfolding special_kept_def
  by (rule list_all2_trans[rotated]) auto

lemma special_kept_setAttribute:
  "map_of as name = Some u \<Longrightarrow> \<not> isAbsoluteOrSpecial (Some u) \<Longrightarrow>
   special_kept as (setAttribute as name v)"
proof (induction as)
  case Nil
  then show ?case by simp
next
  case (Cons a as)
  obtain k w where a: "a = (k, w)" by (cases a)
  show ?case
  proof (cases "k = name")
    case True
    with Cons.prems a have "w = u" by simp
    with True a Cons.prems(2) show ?thesis
      using special_kept_refl[of as] by (simp add: special_kept_def)
  next
    case False
    with Cons a show ?thesis by (simp add: special_kept_def)
  qed
qed

lemma special_kept_rewriteAttr: "special_kept as (rewriteAttr U b as attr)"
  by (auto simp: rewriteAttr_def getAttribute_def special_kept_refl
      intro: special_kept_setAttribute split: option.splits)

lemma special_kept_fold:
  "special_kept as (fold (\<lambda>attr as'. rewriteAttr U b as' attr) names as)"
proof (induction names arbitrary: as)
  case Nil
  show ?case by (simp add: special_kept_refl)
next
  case (Cons n names)
  show ?case
    using special_kept_trans[OF special_kept_rewriteAttr Cons.IH] by simp
qed

lemma same_elements_refl: "same_elements es es"
  by (simp add: same_elements_def list_all2_refl case_prod_beta special_kept_refl)

lemma same_elements_trans:
  assumes "same_elements xs ys" "same_elements ys zs"
  shows "same_elements xs zs"
  using assms unfolding same_elements_def
  by (rule list_all2_trans[rotated]) (auto intro: special_kept_trans)

lemma same_elements_concat:
  "(\<And>x. x \<in> set xs \<Longrightarrow> same_elements (f x) (g x)) \<Longrightarrow>
   same_elements (concat (map f xs)) (concat (map g xs))"
  unfolding same_elements_def
  by (induction xs) (auto intro: list_all2_appendI)

lemma same_elements_rewriteTag:
  "same_elements (elements d) (elements (rewriteTag U b tag names d))"
proof (induction d)
  case (Element t as cs)
  have "same_elements (concat (map elements cs))
          (concat (map (\<lambda>c. elements (rewriteTag U b tag names c)) cs))"
    using Element.IH by (rule same_elements_concat)
  then show ?case
    by (simp add: same_elements_def special_kept_fold special_kept_refl comp_def)
next
  case (Text s)
  show ?case by (simp add: same_elements_def)
qed

lemma same_elements_rounds:
  "same_elements (elements d)
     (elements (fold (\<lambda>(tag, names) d. rewriteTag U b tag names d) regs d))"
proof (induction regs arbitrary: d)
  case Nil
  show ?case by (simp add: same_elements_refl)
next
  case (Cons r regs)
  obtain tag names where r: "r = (tag, names)" by (cases r)
  show ?case
    using same_elements_trans[OF same_elements_rewriteTag Cons.IH] by (simp add: r)
qed

text \<open>
  C6. The rewritten document has the elements of the parsed one, in the same order and with
  the same attribute names, and every attribute value the Classifier marks special (empty,
  \<open>http://\<close> or \<open>https://\<close>, \<open>#\<close>, \<open>data:\<close>, \<open>mailto:\<close>, \<open>tel:\<close>, \<open>javascript:\<close>) is the same
  string as before; an attribute that is absent (\<open>null\<close>) stays absent.
\<close>

theorem special_references_unchanged:
  "same_elements (elements doc) (elements (rewriteDocument U doc baseRawDirUrl))"
  unfolding rewriteDocument_def by (rule same_elements_rounds)

theorem special_references_unchanged_witness:
  "elements (rewriteDocument sample_URL sample_doc ''https://h/o/r/ref/dir'') =
     [(''html'', []), (''body'', []),
      (''video'', [(''poster'', ''p.png'')]),
      (''video'', [(''src'', ''https://h/o/r/ref/dir/v.mp4''),
                   (''poster'', ''data:image/png;base64,AA'')]),
      (''a'', [(''href'', ''#top'')]),
      (''img'', [(''alt'', ''logo''), (''src'', ''https://cdn.example/logo.png'')])] \<and>
   same_elements (elements sample_doc)
     (elements (rewriteDocument sample_URL sample_doc ''https://h/o/r/ref/dir''))"
proof -
  have "elements (rewriteDocument sample_URL sample_doc ''https://h/o/r/ref/dir'') =
     [(''html'', []), (''body'', []),
      (''video'', [(''poster'', ''p.png'')]),
      (''video'', [(''src'', ''https://h/o/r/ref/dir/v.mp4''),
                   (''poster'', ''data:image/png;base64,AA'')]),
      (''a'', [(''href'', ''#top'')]),
      (''img'', [(''alt'', ''logo''), (''src'', ''https://cdn.example/logo.png'')])]"
    by code_simp
  then show ?thesis
    using special_references_unchanged[of sample_doc sample_URL "''https://h/o/r/ref/dir''"]
    by simp
qed

text \<open>
  C8. Whatever the input string, and whatever tree the parser makes of it, \<open>rewriteHtml\<close>
  returns a string: the doctype declaration, a line feed, and the serialized document. No
  step of it throws; the one that can, the URL constructor, is caught in \<open>resolveUrl\<close>.
\<close>

theorem rewriteHtml_starts_with_doctype:
  "startsWith (rewriteHtml parseFromString outerHTML U htmlText baseRawDirUrl) ''<!DOCTYPE html>'' \<and>
   rewriteHtml parseFromString outerHTML U htmlText baseRawDirUrl =
     ''<!DOCTYPE html>'' @ [CHR 0x0A] @
       outerHTML (rewriteDocument U (parseFromString htmlText) baseRawDirUrl)"
  by (simp add: rewriteHtml_def)

text \<open>
  C4. A \<open>video\<close> element that has \<open>poster\<close> but no \<open>src\<close> is not among the elements the
  selector \<open>video[src]\<close> finds: its \<open>poster\<close> stays as it is although the Classifier marks it
  rewritable. With a \<open>src\<close> attribute on the element (even an empty one) the same \<open>poster\<close>
  is replaced by the Resolver's output.
\<close>

theorem poster_without_src_is_not_rewritten:
  "rewriteDocument U (Element ''video'' [(''poster'', ''p.png'')] []) baseRawDirUrl =
     Element ''video'' [(''poster'', ''p.png'')] [] \<and>
   \<not> isAbsoluteOrSpecial (Some ''p.png'') \<and>
   rewriteDocument U (Element ''video'' [(''src'', ''''), (''poster'', ''p.png'')] []) baseRawDirUrl =
     Element ''video'' [(''src'', ''''), (''poster'', resolveUrl U ''p.png'' baseRawDirUrl)] []"
  by (simp add: rewriteDocument_def URL_ATTRS_def getAttribute_def attr0_def rewriteAttr_def
      isAbsoluteOrSpecial_def trim_def isWhiteSpace_def)

section \<open>The Content Cache\<close>

lemma ui_state [simp]:
  "state (showLoading b s) = state s" "state (showError m s) = state s"
  "state (clearError s) = state s" "state (renderBreadcrumb segs s) = state s"
  "state (renderFileList items s) = state s" "state (setRepoInput v s) = state s"
  "state (setBranchInput v s) = state s" "state (issue r s) = state s"
  by (simp_all add: showLoading_def showError_def clearError_def renderBreadcrumb_def
      renderFileList_def setRepoInput_def setBranchInput_def issue_def)

lemma ui_listCache [simp]:
  "listCache (showLoading b s) = listCache s" "listCache (showError m s) = listCache s"
  "listCache (clearError s) = listCache s" "listCache (renderBreadcrumb segs s) = listCache s"
  "listCache (renderFileList items s) = listCache s" "listCache (setRepoInput v s) = listCache s"
  "listCache (setBranchInput v s) = listCache s" "listCache (issue r s) = listCache s"
  "listCache (applyStateToUrl s) = listCache s"
  by (simp_all add: showLoading_def showError_def clearError_def renderBreadcrumb_def
      renderFileList_def setRepoInput_def setBranchInput_def issue_def applyStateToUrl_def Let_def)

lemma applyStateToUrl_state [simp]: "state (applyStateToUrl s) = state s"
  by (simp add: applyStateToUrl_def Let_def)

lemma loadListing_hit:
  "listCache s (cacheKey o' r p f) = Some v \<Longrightarrow> loadListing A o' r p f s = (Inr v, s)"
  by (simp add: loadListing_def)

lemma loadListing_miss:
  "listCache s (cacheKey o' r p f) = None \<Longrightarrow>
   loadListing A o' r p f s =
     (case listContents A o' r p f of
        Inl e \<Rightarrow> (Inl e, issue (ReqListContents o' r p f) s)
      | Inr v \<Rightarrow> (Inr v, (issue (ReqListContents o' r p f) s)
                    \<lparr>listCache := (listCache s)(cacheKey o' r p f \<mapsto> v)\<rparr>))"
  by (simp add: loadListing_def Let_def issue_def split: sum.splits)

lemma loadListing_Inr:
  assumes "loadListing A o' r p f s = (Inr v, s1)"
  shows "listCache s1 (cacheKey o' r p f) = Some v"
    and "length (requests s1) \<le> length (requests s) + 1"
    and "state s1 = state s"
  using assms
  by (auto simp: loadListing_def issue_def Let_def split: option.splits sum.splits)

lemma loadListing_Inl:
  assumes "loadListing A o' r p f s = (Inl e, s1)"
  shows "listContents A o' r p f = Inl e"
    and "s1 = issue (ReqListContents o' r p f) s"
    and "listCache s (cacheKey o' r p f) = None"
  using assms
  by (auto simp: loadListing_def Let_def split: option.splits sum.splits)

lemma loadFileContent_hit:
  "fileCache s (cacheKey o' r p f) = Some v \<Longrightarrow> loadFileContent A o' r p f s = (Inr v, s)"
  by (simp add: loadFileContent_def)

lemma loadFileContent_miss:
  "fileCache s (cacheKey o' r p f) = None \<Longrightarrow>
   loadFileContent A o' r p f s =
     (case getFileContent A o' r p f of
        Inl e \<Rightarrow> (Inl e, issue (ReqFileContent o' r p f) s)
      | Inr fc \<Rightarrow> (Inr (text_of fc), (issue (ReqFileContent o' r p f) s)
                    \<lparr>fileCache := (fileCache s)(cacheKey o' r p f \<mapsto> text_of fc)\<rparr>))"
  by (simp add: loadFileContent_def Let_def issue_def split: sum.splits)

lemma loadFileContent_Inr:
  assumes "loadFileContent A o' r p f s = (Inr v, s1)"
  shows "fileCache s1 (cacheKey o' r p f) = Some v"
    and "length (requests s1) \<le> length (requests s) + 1"
  using assms
  by (auto simp: loadFileContent_def issue_def Let_def split: option.splits sum.splits)

lemma loadFileContent_Inl:
  assumes "loadFileContent A o' r p f s = (Inl e, s1)"
  shows "getFileContent A o' r p f = Inl e"
    and "s1 = issue (ReqFileContent o' r p f) s"
    and "fileCache s (cacheKey o' r p f) = None"
  using assms
  by (auto simp: loadFileContent_def Let_def split: option.splits sum.splits)

lemma loadRepoInfo_hit:
  "repoCache s (o' @ ''/'' @ r) = Some v \<Longrightarrow> loadRepoInfo A o' r s = (Inr v, s)"
  by (simp add: loadRepoInfo_def)

lemma loadRepoInfo_miss:
  "repoCache s (o' @ ''/'' @ r) = None \<Longrightarrow>
   loadRepoInfo A o' r s =
     (case getRepoInfo A o' r of
        Inl e \<Rightarrow> (Inl e, issue (ReqRepoInfo o' r) s)
      | Inr v \<Rightarrow> (Inr v, (issue (ReqRepoInfo o' r) s)
                    \<lparr>repoCache := (repoCache s)(o' @ ''/'' @ r \<mapsto> v)\<rparr>))"
  by (simp add: loadRepoInfo_def Let_def issue_def split: sum.splits)

lemma loadRepoInfo_Inr:
  assumes "loadRepoInfo A o' r s = (Inr v, s1)"
  shows "repoCache s1 (o' @ ''/'' @ r) = Some v"
    and "length (requests s1) \<le> length (requests s) + 1"
    and "state s1 = state s"
  using assms
  by (auto simp: loadRepoInfo_def issue_def Let_def split: option.splits sum.splits)

lemma loadRepoInfo_Inl:
  assumes "loadRepoInfo A o' r s = (Inl e, s1)"
  shows "getRepoInfo A o' r = Inl e"
    and "s1 = issue (ReqRepoInfo o' r) s"
    and "repoCache s (o' @ ''/'' @ r) = None"
  using assms
  by (auto simp: loadRepoInfo_def Let_def split: option.splits sum.splits)

lemma issue_caches [simp]:
  "repoCache (issue q s) = repoCache s" "fileCache (issue q s) = fileCache s"
  "requests (issue q s) = requests s @ [q]"
  by (simp_all add: issue_def)

text \<open>
  C7. In each of the three tiers: once a call has resolved with a value, a call under the
  same key returns that value and leaves everything as it is, whatever the API would answer
  now, so at most one API request went out over the two calls. When the API call of a miss
  fails, the loader rejects with that error, the cache is as before with nothing under the
  key, and the next call under the key goes to the API again and returns what the API answers
  then.
\<close>

theorem cache_get_or_fill:
  assumes "cacheKey o2 r2 p2 f2 = cacheKey o1 r1 p1 f1" and "o2 @ ''/'' @ r2 = o1 @ ''/'' @ r1"
  shows
   "(loadListing A o1 r1 p1 f1 s = (Inr items, s1) \<longrightarrow>
       loadListing A' o2 r2 p2 f2 s1 = (Inr items, s1) \<and>
       length (requests s1) \<le> length (requests s) + 1) \<and>
    (loadListing A o1 r1 p1 f1 s = (Inl e, s1) \<longrightarrow>
       listContents A o1 r1 p1 f1 = Inl e \<and>
       listCache s1 = listCache s \<and> listCache s1 (cacheKey o1 r1 p1 f1) = None \<and>
       loadListing A' o2 r2 p2 f2 s1 =
         (case listContents A' o2 r2 p2 f2 of
            Inl e' \<Rightarrow> (Inl e', issue (ReqListContents o2 r2 p2 f2) s1)
          | Inr v \<Rightarrow> (Inr v, (issue (ReqListContents o2 r2 p2 f2) s1)
                        \<lparr>listCache := (listCache s1)(cacheKey o2 r2 p2 f2 \<mapsto> v)\<rparr>))) \<and>
    (loadFileContent A o1 r1 p1 f1 s = (Inr content, s1) \<longrightarrow>
       loadFileContent A' o2 r2 p2 f2 s1 = (Inr content, s1) \<and>
       length (requests s1) \<le> length (requests s) + 1) \<and>
    (loadFileContent A o1 r1 p1 f1 s = (Inl e, s1) \<longrightarrow>
       getFileContent A o1 r1 p1 f1 = Inl e \<and>
       fileCache s1 = fileCache s \<and> fileCache s1 (cacheKey o1 r1 p1 f1) = None \<and>
       loadFileContent A' o2 r2 p2 f2 s1 =
         (case getFileContent A' o2 r2 p2 f2 of
            Inl e' \<Rightarrow> (Inl e', issue (ReqFileContent o2 r2 p2 f2) s1)
          | Inr fc \<Rightarrow> (Inr (text_of fc), (issue (ReqFileContent o2 r2 p2 f2) s1)
                        \<lparr>fileCache := (fileCache s1)(cacheKey o2 r2 p2 f2 \<mapsto> text_of fc)\<rparr>))) \<and>
    (loadRepoInfo A o1 r1 s = (Inr info, s1) \<longrightarrow>
       loadRepoInfo A' o2 r2 s1 = (Inr info, s1) \<and>
       length (requests s1) \<le> length (requests s) + 1) \<and>
    (loadRepoInfo A o1 r1 s = (Inl e, s1) \<longrightarrow>
       getRepoInfo A o1 r1 = Inl e \<and>
       repoCache s1 = repoCache s \<and> repoCache s1 (o1 @ ''/'' @ r1) = None \<and>
       loadRepoInfo A' o2 r2 s1 =
         (case getRepoInfo A' o2 r2 of
            Inl e' \<Rightarrow> (Inl e', issue (ReqRepoInfo o2 r2) s1)
          | Inr v \<Rightarrow> (Inr v, (issue (ReqRepoInfo o2 r2) s1)
                        \<lparr>repoCache := (repoCache s1)(o2 @ ''/'' @ r2 \<mapsto> v)\<rparr>)))"
proof -
  have l1: "loadListing A' o2 r2 p2 f2 s1 = (Inr items, s1) \<and>
            length (requests s1) \<le> length (requests s) + 1"
    if "loadListing A o1 r1 p1 f1 s = (Inr items, s1)"
    using loadListing_Inr[OF that] assms(1) by (simp add: loadListing_hit)
  have l2: "listContents A o1 r1 p1 f1 = Inl e \<and>
       listCache s1 = listCache s \<and> listCache s1 (cacheKey o1 r1 p1 f1) = None \<and>
       loadListing A' o2 r2 p2 f2 s1 =
         (case listContents A' o2 r2 p2 f2 of
            Inl e' \<Rightarrow> (Inl e', issue (ReqListContents o2 r2 p2 f2) s1)
          | Inr v \<Rightarrow> (Inr v, (issue (ReqListContents o2 r2 p2 f2) s1)
                        \<lparr>listCache := (listCache s1)(cacheKey o2 r2 p2 f2 \<mapsto> v)\<rparr>))"
    if "loadListing A o1 r1 p1 f1 s = (Inl e, s1)"
  proof -
    note f = loadListing_Inl[OF that]
    have "listCache s1 (cacheKey o2 r2 p2 f2) = None"
      using f(2,3) assms(1) by simp
    then show ?thesis
      using f assms(1) by (simp add: loadListing_miss split: sum.splits)
  qed
  have f1: "loadFileContent A' o2 r2 p2 f2 s1 = (Inr content, s1) \<and>
            length (requests s1) \<le> length (requests s) + 1"
    if "loadFileContent A o1 r1 p1 f1 s = (Inr content, s1)"
    using loadFileContent_Inr[OF that] assms(1) by (simp add: loadFileContent_hit)
  have f2: "getFileContent A o1 r1 p1 f1 = Inl e \<and>
       fileCache s1 = fileCache s \<and> fileCache s1 (cacheKey o1 r1 p1 f1) = None \<and>
       loadFileContent A' o2 r2 p2 f2 s1 =
         (case getFileContent A' o2 r2 p2 f2 of
            Inl e' \<Rightarrow> (Inl e', issue (ReqFileContent o2 r2 p2 f2) s1)
          | Inr fc \<Rightarrow> (Inr (text_of fc), (issue (ReqFileContent o2 r2 p2 f2) s1)
                        \<lparr>fileCache := (fileCache s1)(cacheKey o2 r2 p2 f2 \<mapsto> text_of fc)\<rparr>))"
    if "loadFileContent A o1 r1 p1 f1 s = (Inl e, s1)"
  proof -
    note f = loadFileContent_Inl[OF that]
    have "fileCache s1 (cacheKey o2 r2 p2 f2) = None"
      using f(2,3) assms(1) by simp
    then show ?thesis
      using f assms(1) by (simp add: loadFileContent_miss split: sum.splits)
  qed
  have r1: "loadRepoInfo A' o2 r2 s1 = (Inr info, s1) \<and>
            length (requests s1) \<le> length (requests s) + 1"
    if "loadRepoInfo A o1 r1 s = (Inr info, s1)"
    using loadRepoInfo_Inr[OF that] assms(2) by (simp add: loadRepoInfo_hit)
  have r2: "getRepoInfo A o1 r1 = Inl e \<and>
       repoCache s1 = repoCache s \<and> repoCache s1 (o1 @ ''/'' @ r1) = None \<and>
       loadRepoInfo A' o2 r2 s1 =
         (case getRepoInfo A' o2 r2 of
            Inl e' \<Rightarrow> (Inl e', issue (ReqRepoInfo o2 r2) s1)
          | Inr v \<Rightarrow> (Inr v, (issue (ReqRepoInfo o2 r2) s1)
                        \<lparr>repoCache := (repoCache s1)(o2 @ ''/'' @ r2 \<mapsto> v)\<rparr>))"
    if "loadRepoInfo A o1 r1 s = (Inl e, s1)"
  proof -
    note f = loadRepoInfo_Inl[OF that]
    have "repoCache s1 (o2 @ ''/'' @ r2) = None"
      using f(2,3) assms(2) by simp
    then show ?thesis
      using f assms(2) by (simp add: loadRepoInfo_miss split: sum.splits)
  qed
  from l1 l2 f1 f2 r1 r2 show ?thesis by blast
qed

theorem cache_get_or_fill_witness:
  "fst (loadListing api_up ''o'' ''r'' [] ''main'' (initial_app [])) = Inr root_items \<and>
   loadListing api_down ''o'' ''r'' [] ''main''
       (snd (loadListing api_up ''o'' ''r'' [] ''main'' (initial_app []))) =
     (Inr root_items, snd (loadListing api_up ''o'' ''r'' [] ''main'' (initial_app []))) \<and>
   fst (loadListing api_down ''o'' ''r'' [] ''main'' (initial_app [])) = Inl not_found \<and>
   fst (loadListing api_up ''o'' ''r'' [] ''main''
       (snd (loadListing api_down ''o'' ''r'' [] ''main'' (initial_app [])))) = Inr root_items \<and>
   fst (loadFileContent api_up ''o'' ''r'' ''index.html'' ''main'' (initial_app [])) =
     Inr ''<a href=x>x</a>'' \<and>
   loadFileContent api_down ''o'' ''r'' ''index.html'' ''main''
       (snd (loadFileContent api_up ''o'' ''r'' ''index.html'' ''main'' (initial_app []))) =
     (Inr ''<a href=x>x</a>'',
      snd (loadFileContent api_up ''o'' ''r'' ''index.html'' ''main'' (initial_app []))) \<and>
   fst (loadFileContent api_down ''o'' ''r'' ''index.html'' ''main'' (initial_app [])) =
     Inl not_found \<and>
   fst (loadFileContent api_up ''o'' ''r'' ''index.html'' ''main''
       (snd (loadFileContent api_down ''o'' ''r'' ''index.html'' ''main'' (initial_app [])))) =
     Inr ''<a href=x>x</a>'' \<and>
   fst (loadRepoInfo api_up ''o'' ''r'' (initial_app [])) =
     Inr \<lparr>default_branch = ''main'', full_name = ''o/r''\<rparr> \<and>
   loadRepoInfo api_down ''o'' ''r'' (snd (loadRepoInfo api_up ''o'' ''r'' (initial_app []))) =
     (Inr \<lparr>default_branch = ''main'', full_name = ''o/r''\<rparr>,
      snd (loadRepoInfo api_up ''o'' ''r'' (initial_app []))) \<and>
   fst (loadRepoInfo api_down ''o'' ''r'' (initial_app [])) = Inl not_found \<and>
   fst (loadRepoInfo api_up ''o'' ''r''
       (snd (loadRepoInfo api_down ''o'' ''r'' (initial_app [])))) =
     Inr \<lparr>default_branch = ''main'', full_name = ''o/r''\<rparr>"
proof -
  let ?s = "initial_app []"
  have e: "listCache ?s = Map.empty" "fileCache ?s = Map.empty" "repoCache ?s = Map.empty"
    by (simp_all add: initial_app_def)
  have a1: "fst (loadListing api_up ''o'' ''r'' [] ''main'' ?s) = Inr root_items"
    by (simp add: loadListing_miss e api_up_def)
  have a2: "fst (loadListing api_down ''o'' ''r'' [] ''main'' ?s) = Inl not_found"
    by (simp add: loadListing_miss e api_down_def)
  have b1: "fst (loadFileContent api_up ''o'' ''r'' ''index.html'' ''main'' ?s) =
              Inr ''<a href=x>x</a>''"
    by (simp add: loadFileContent_miss e api_up_def)
  have b2: "fst (loadFileContent api_down ''o'' ''r'' ''index.html'' ''main'' ?s) = Inl not_found"
    by (simp add: loadFileContent_miss e api_down_def)
  have c1: "fst (loadRepoInfo api_up ''o'' ''r'' ?s) =
              Inr \<lparr>default_branch = ''main'', full_name = ''o/r''\<rparr>"
    by (simp add: loadRepoInfo_miss e api_up_def)
  have c2: "fst (loadRepoInfo api_down ''o'' ''r'' ?s) = Inl not_found"
    by (simp add: loadRepoInfo_miss e api_down_def)
  have up: "listContents api_up ''o'' ''r'' [] ''main'' = Inr root_items"
    "getFileContent api_up ''o'' ''r'' ''index.html'' ''main'' =
       Inr \<lparr>text_of = ''<a href=x>x</a>'',
            rawUrl = ''https://raw.githubusercontent.com/o/r/main/index.html''\<rparr>"
    "getRepoInfo api_up ''o'' ''r'' = Inr \<lparr>default_branch = ''main'', full_name = ''o/r''\<rparr>"
    by (simp_all add: api_up_def)
  note hit = cache_get_or_fill[OF refl refl, where A = api_up and A' = api_down and s = ?s
      and ?o1.0 = "''o''" and ?r1.0 = "''r''" and ?f1.0 = "''main''"]
  note miss = cache_get_or_fill[OF refl refl, where A = api_down and A' = api_up and s = ?s
      and ?o1.0 = "''o''" and ?r1.0 = "''r''" and ?f1.0 = "''main''"]
  have h1: "loadListing api_down ''o'' ''r'' [] ''main''
       (snd (loadListing api_up ''o'' ''r'' [] ''main'' ?s)) =
     (Inr root_items, snd (loadListing api_up ''o'' ''r'' [] ''main'' ?s))"
    using hit[where ?p1.0 = "[]" and items = root_items
        and ?s1.0 = "snd (loadListing api_up ''o'' ''r'' [] ''main'' ?s)"] a1
    by (simp add: prod_eq_iff)
  have h2: "fst (loadListing api_up ''o'' ''r'' [] ''main''
       (snd (loadListing api_down ''o'' ''r'' [] ''main'' ?s))) = Inr root_items"
    using miss[where ?p1.0 = "[]" and e = not_found
        and ?s1.0 = "snd (loadListing api_down ''o'' ''r'' [] ''main'' ?s)"] a2 up(1)
    by (simp add: prod_eq_iff)
  have h3: "loadFileContent api_down ''o'' ''r'' ''index.html'' ''main''
       (snd (loadFileContent api_up ''o'' ''r'' ''index.html'' ''main'' ?s)) =
     (Inr ''<a href=x>x</a>'',
      snd (loadFileContent api_up ''o'' ''r'' ''index.html'' ''main'' ?s))"
    using hit[where ?p1.0 = "''index.html''" and content = "''<a href=x>x</a>''"
        and ?s1.0 = "snd (loadFileContent api_up ''o'' ''r'' ''index.html'' ''main'' ?s)"] b1
    by (simp add: prod_eq_iff)
  have h4: "fst (loadFileContent api_up ''o'' ''r'' ''index.html'' ''main''
       (snd (loadFileContent api_down ''o'' ''r'' ''index.html'' ''main'' ?s))) =
     Inr ''<a href=x>x</a>''"
    using miss[where ?p1.0 = "''index.html''" and e = not_found
        and ?s1.0 = "snd (loadFileContent api_down ''o'' ''r'' ''index.html'' ''main'' ?s)"] b2 up(2)
    by (simp add: prod_eq_iff)
  have h5: "loadRepoInfo api_down ''o'' ''r'' (snd (loadRepoInfo api_up ''o'' ''r'' ?s)) =
     (Inr \<lparr>default_branch = ''main'', full_name = ''o/r''\<rparr>,
      snd (loadRepoInfo api_up ''o'' ''r'' ?s))"
    using hit[where ?p1.0 = "[]" and info = "\<lparr>default_branch = ''main'', full_name = ''o/r''\<rparr>"
        and ?s1.0 = "snd (loadRepoInfo api_up ''o'' ''r'' ?s)"] c1
    by (simp add: prod_eq_iff)
  have h6: "fst (loadRepoInfo api_up ''o'' ''r'' (snd (loadRepoInfo api_down ''o'' ''r'' ?s))) =
     Inr \<lparr>default_branch = ''main'', full_name = ''o/r''\<rparr>"
    using miss[where ?p1.0 = "[]" and e = not_found
        and ?s1.0 = "snd (loadRepoInfo api_down ''o'' ''r'' ?s)"] c2 up(3)
    by (simp add: prod_eq_iff)
  from a1 a2 b1 b2 c1 c2 h1 h2 h3 h4 h5 h6 show ?thesis by blast
qed

section \<open>The query string\<close>

lemma str_split_nonempty: "str_split c s \<noteq> []"
  by (induction s) (auto split: list.splits)

lemma str_split_no_sep: "p \<in> set (str_split c s) \<Longrightarrow> c \<notin> set p"
proof (induction s arbitrary: p)
  case Nil
  then show ?case by simp
next
  case (Cons x xs)
  then show ?case
    using str_split_nonempty[of c xs]
    by (cases "str_split c xs") (auto split: if_splits)
qed

lemma str_split_plain: "c \<notin> set s \<Longrightarrow> str_split c s = [s]"
  by (induction s) auto

lemma str_split_append:
  "c \<notin> set a \<Longrightarrow> str_split c (a @ c # b) = a # str_split c b"
  by (induction a) auto

lemma str_join_split: "str_join [c] (str_split c s) = s"
proof (induction s)
  case Nil
  show ?case by simp
next
  case (Cons x xs)
  obtain p ps where sp: "str_split c xs = p # ps"
    using str_split_nonempty[of c xs] by (cases "str_split c xs") auto
  show ?case
    using Cons sp by (cases ps) auto
qed

lemma str_split_join:
  "ps \<noteq> [] \<Longrightarrow> \<forall>p \<in> set ps. c \<notin> set p \<Longrightarrow> str_split c (str_join [c] ps) = ps"
proof (induction ps)
  case Nil
  then show ?case by simp
next
  case (Cons p ps)
  then show ?case
    by (cases ps) (auto simp: str_split_plain str_split_append)
qed

lemma str_join_nonempty:
  assumes "ps \<noteq> []" "hd ps \<noteq> []"
  shows "str_join sep ps \<noteq> []"
proof (cases ps)
  case Nil
  with assms show ?thesis by simp
next
  case (Cons p qs)
  with assms show ?thesis by (cases qs) auto
qed

lemma trim_subset: "set (trim s) \<subseteq> set s"
proof -
  have "set (dropWhile isWhiteSpace (rev (dropWhile isWhiteSpace s))) \<subseteq>
        set (rev (dropWhile isWhiteSpace s))"
    by (rule set_dropWhileD[THEN subsetI])
  then show ?thesis
    unfolding trim_def using set_dropWhileD[of _ isWhiteSpace s] by auto
qed

lemma params_get_delete:
  "params_get (params_delete q n) m = (if m = n then None else params_get q m)"
  by (induction q) (auto simp: params_get_def params_delete_def)

lemma params_get_set:
  "params_get (params_set q n v) m = (if m = n then Some v else params_get q m)"
proof (induction q)
  case Nil
  show ?case by (simp add: params_get_def)
next
  case (Cons a q)
  obtain k w where a: "a = (k, w)" by (cases a)
  show ?case
    using Cons params_get_delete[of q n m] by (auto simp: a params_get_def)
qed

lemma get_or_empty_applyStateToUrl:
  "get_or_empty (query (applyStateToUrl s)) ''repo'' =
     (if owner (state s) \<noteq> [] \<and> repo (state s) \<noteq> []
      then owner (state s) @ ''/'' @ repo (state s) else [])"
  "get_or_empty (query (applyStateToUrl s)) ''ref'' = ref (state s)"
  "get_or_empty (query (applyStateToUrl s)) ''path'' = path (state s)"
  by (simp_all add: get_or_empty_def applyStateToUrl_def Let_def params_get_set params_get_delete)

lemma roundtrip:
  assumes "coord_ok (owner (state s)) (repo (state s))"
  shows "parseQueryParams (query (applyStateToUrl s)) =
           (owner (state s), repo (state s), ref (state s), path (state s))"
proof -
  let ?o = "owner (state s)" and ?r = "repo (state s)"
  from assms have c: "?o \<noteq> []" "CHR ''/'' \<notin> set ?o" "?r \<noteq> []"
    "[] \<notin> set (str_split CHR ''/'' ?r)"
    by (simp_all add: coord_ok_def)
  have "str_split CHR ''/'' (?o @ ''/'' @ ?r) = ?o # str_split CHR ''/'' ?r"
    using c(2) by (simp add: str_split_append)
  then have parts:
    "filter_Boolean (str_split CHR ''/'' (?o @ ''/'' @ ?r)) = ?o # str_split CHR ''/'' ?r"
    using c(1,4) by (simp add: filter_Boolean_def filter_id_conv) metis
  have "str_join ''/'' (str_split CHR ''/'' ?r) = ?r"
    by (rule str_join_split)
  then show ?thesis
    using c(1,3) parts str_split_nonempty[of "CHR ''/''" ?r]
    by (cases "str_split CHR ''/'' ?r")
       (simp_all add: parseQueryParams_def get_or_empty_applyStateToUrl Let_def)
qed

lemma parts_coord_ok:
  assumes "\<forall>p \<in> set parts. p \<noteq> [] \<and> CHR ''/'' \<notin> set p" and "length parts \<ge> 2"
  shows "coord_ok (parts ! 0) (str_join ''/'' (drop 1 parts))"
proof -
  obtain a b rest where parts: "parts = a # b # rest"
    using assms(2) by (cases parts; cases "tl parts") auto
  have tl: "drop 1 parts = b # rest" "drop 1 parts \<noteq> []" by (simp_all add: parts)
  have ok: "\<forall>p \<in> set (drop 1 parts). CHR ''/'' \<notin> set p" "\<forall>p \<in> set (drop 1 parts). p \<noteq> []"
    using assms(1) by (auto simp: parts)
  have sp: "str_split CHR ''/'' (str_join ''/'' (drop 1 parts)) = drop 1 parts"
    using str_split_join[OF tl(2) ok(1)] by simp
  have ne: "str_join ''/'' (drop 1 parts) \<noteq> []"
    using assms(1) by (intro str_join_nonempty) (simp_all add: parts)
  show ?thesis
    using assms(1) ok(2) ne unfolding coord_ok_def sp by (auto simp: parts)
qed

lemma parseQueryParams_coord_ok:
  assumes "parseQueryParams q = (o', r, f, p)" "o' \<noteq> []" "r \<noteq> []"
  shows "coord_ok o' r"
proof -
  let ?parts = "filter_Boolean (str_split CHR ''/'' (get_or_empty q ''repo''))"
  have all: "\<forall>p \<in> set ?parts. p \<noteq> [] \<and> CHR ''/'' \<notin> set p"
    by (auto simp: filter_Boolean_def dest: str_split_no_sep)
  have "length ?parts \<ge> 2 \<and> o' = ?parts ! 0 \<and> r = str_join ''/'' (drop 1 ?parts)"
    using assms by (auto simp: parseQueryParams_def Let_def split: if_splits)
  then show ?thesis
    using parts_coord_ok[OF all] by simp
qed

lemma repo_input_coord_ok:
  assumes "length (filter_Boolean (map trim (str_split CHR ''/'' input))) \<ge> 2"
  shows "coord_ok (filter_Boolean (map trim (str_split CHR ''/'' input)) ! 0)
           (str_join ''/'' (drop 1 (filter_Boolean (map trim (str_split CHR ''/'' input)))))"
proof -
  have "\<forall>p \<in> set (filter_Boolean (map trim (str_split CHR ''/'' input))).
          p \<noteq> [] \<and> CHR ''/'' \<notin> set p"
    using trim_subset by (auto simp: filter_Boolean_def dest: str_split_no_sep)
  then show ?thesis
    using assms by (rule parts_coord_ok)
qed

section \<open>The Navigation Controller\<close>

lemma ui_fields [simp]:
  "query (showLoading b s) = query s" "query (showError m s) = query s"
  "query (clearError s) = query s" "query (renderBreadcrumb segs s) = query s"
  "query (renderFileList items s) = query s" "query (issue r s) = query s"
  "errorMessage (showLoading b s) = errorMessage s" "errorMessage (showError m s) = m"
  "errorMessage (clearError s) = []" "errorMessage (renderBreadcrumb segs s) = errorMessage s"
  "errorMessage (renderFileList items s) = errorMessage s"
  "errorMessage (issue r s) = errorMessage s"
  "errorMessage (applyStateToUrl s) = errorMessage s"
  "fileList (showLoading b s) = fileList s" "fileList (showError m s) = fileList s"
  "fileList (clearError s) = fileList s" "fileList (renderBreadcrumb segs s) = fileList s"
  "fileList (renderFileList items s) = items" "fileList (issue r s) = fileList s"
  "fileList (applyStateToUrl s) = fileList s"
  "requests (showLoading b s) = requests s" "requests (showError m s) = requests s"
  "requests (clearError s) = requests s" "requests (renderBreadcrumb segs s) = requests s"
  "requests (renderFileList items s) = requests s"
  "requests (applyStateToUrl s) = requests s"
  by (simp_all add: showLoading_def showError_def clearError_def renderBreadcrumb_def
      renderFileList_def issue_def applyStateToUrl_def Let_def)

lemma openPath_start_fields [simp]:
  "state (openPath_start p s) = (state s)\<lparr>path := p\<rparr>"
  "listCache (openPath_start p s) = listCache s"
  "errorMessage (openPath_start p s) = []"
  "fileList (openPath_start p s) = fileList s"
  "requests (openPath_start p s) = requests s"
  "query (openPath_start p s) = query (applyStateToUrl (s\<lparr>state := (state s)\<lparr>path := p\<rparr>\<rparr>))"
  by (simp_all add: openPath_start_def Let_def)

lemma openPath_catch_fields [simp]:
  "state (openPath_catch e s) = (state s)\<lparr>fileDates := Some Map.empty\<rparr>"
  "errorMessage (openPath_catch e s) = (if message e \<noteq> [] then message e else ''Failed to load'')"
  "fileList (openPath_catch e s) = []"
  "query (openPath_catch e s) = query s"
  "requests (openPath_catch e s) = requests s"
  by (simp_all add: openPath_catch_def Let_def)

lemma loadListing_fst_cong:
  "listCache s' = listCache s \<Longrightarrow>
   fst (loadListing A o' r p f s') = fst (loadListing A o' r p f s)"
  by (simp add: loadListing_def Let_def split: option.splits sum.splits)

lemma loadListing_fields:
  assumes "loadListing A o' r p f s = (res, s1)"
  shows "state s1 = state s" "query s1 = query s" "errorMessage s1 = errorMessage s"
    "fileList s1 = fileList s"
    "requests s1 = requests s \<or> requests s1 = requests s @ [ReqListContents o' r p f]"
  using assms
  by (auto simp: loadListing_def issue_def Let_def split: option.splits sum.splits)

lemma openPath_noop:
  "\<not> loaded (state s) \<or> owner (state s) = [] \<or> repo (state s) = [] \<Longrightarrow> openPath A p s = s"
  by (simp add: openPath_def)

lemma openPath_frame:
  "owner (state (openPath A p s)) = owner (state s)"
  "repo (state (openPath A p s)) = repo (state s)"
  "ref (state (openPath A p s)) = ref (state s)"
  "previewPath (state (openPath A p s)) = previewPath (state s)"
  "loaded (state (openPath A p s)) = loaded (state s)"
  by (auto simp: openPath_def Let_def dest!: loadListing_fields(1)
      split: prod.splits sum.splits)

subsection \<open>\<open>openPath\<close>\<close>

lemma all_dates_ok:
  "\<forall>it \<in> set items. G (item_path it) = Inr (d (item_path it)) \<Longrightarrow>
   all_dates (map (\<lambda>it. (item_path it, G (item_path it))) items) =
     Inr (map (\<lambda>it. (item_path it, d (item_path it))) items)"
  by (induction items) auto

lemma all_dates_fails:
  "\<exists>it \<in> set items. \<exists>e. G (item_path it) = Inl e \<Longrightarrow>
   \<exists>e. all_dates (map (\<lambda>it. (item_path it, G (item_path it))) items) = Inl e"
proof (induction items)
  case Nil
  then show ?case by simp
next
  case (Cons it items)
  show ?case
  proof (cases "G (item_path it)")
    case (Inl e)
    then show ?thesis by simp
  next
    case (Inr d)
    with Cons.prems have "\<exists>it \<in> set items. \<exists>e. G (item_path it) = Inl e" by auto
    then obtain e where "all_dates (map (\<lambda>it. (item_path it, G (item_path it))) items) = Inl e"
      using Cons.IH by blast
    with Inr show ?thesis by simp
  qed
qed

lemma fold_entries:
  "fold (\<lambda>(k, v) m. m(k \<mapsto> v)) (map (\<lambda>it. (g it, d (g it))) items) m =
     (\<lambda>k. if k \<in> g ` set items then Some (d k) else m k)"
  by (induction items arbitrary: m) (auto simp: fun_eq_iff)

lemma fromEntries_dates:
  "fromEntries (map (\<lambda>it. (item_path it, d (item_path it))) items) =
     (\<lambda>k. if k \<in> item_path ` set items then Some (d k) else None)"
  by (simp add: fromEntries_def fold_entries)

text \<open>What \<open>openPath\<close> leaves behind, by the outcome of the listing fetch and of the batch of
  lookups.\<close>

lemma openPath_fetch_fails:
  assumes act: "loaded (state s)" "owner (state s) \<noteq> []" "repo (state s) \<noteq> []"
    and fails: "fst (loadListing A (owner (state s)) (repo (state s)) p (ref (state s)) s) = Inl e"
  shows "state (openPath A p s) = (state s)\<lparr>path := p, fileDates := Some Map.empty\<rparr>"
    and "errorMessage (openPath A p s) = (if message e \<noteq> [] then message e else ''Failed to load'')"
    and "fileList (openPath A p s) = []"
    and "query (openPath A p s) = query (applyStateToUrl (s\<lparr>state := (state s)\<lparr>path := p\<rparr>\<rparr>))"
proof -
  let ?s4 = "openPath_start p s"
  obtain res s5 where l: "loadListing A (owner (state s)) (repo (state s)) p (ref (state s)) ?s4 = (res, s5)"
    by (cases "loadListing A (owner (state s)) (repo (state s)) p (ref (state s)) ?s4")
  have "fst (loadListing A (owner (state s)) (repo (state s)) p (ref (state s)) ?s4) = Inl e"
    using fails loadListing_fst_cong[of ?s4 s] by simp
  with l have res: "res = Inl e" by simp
  note f = loadListing_fields[OF l]
  have o: "openPath A p s = openPath_catch e s5"
    using act l res by (simp add: openPath_def Let_def)
  show "state (openPath A p s) = (state s)\<lparr>path := p, fileDates := Some Map.empty\<rparr>"
    and "errorMessage (openPath A p s) = (if message e \<noteq> [] then message e else ''Failed to load'')"
    and "fileList (openPath A p s) = []"
    and "query (openPath A p s) = query (applyStateToUrl (s\<lparr>state := (state s)\<lparr>path := p\<rparr>\<rparr>))"
    using f by (simp_all add: o)
qed

lemma openPath_fetch_ok:
  assumes act: "loaded (state s)" "owner (state s) \<noteq> []" "repo (state s) \<noteq> []"
    and ok: "fst (loadListing A (owner (state s)) (repo (state s)) p (ref (state s)) s) = Inr items"
  obtains s7 where
    "openPath A p s =
       (case all_dates
               (map (\<lambda>it. (item_path it,
                       getLatestCommitDate A (owner (state s)) (repo (state s)) (item_path it)
                         (ref (state s))))
                  items) of
          Inl e \<Rightarrow> openPath_catch e s7
        | Inr dateEntries \<Rightarrow>
            showLoading False (renderFileList items
              (s7\<lparr>state := (state s7)\<lparr>fileDates := Some (fromEntries dateEntries)\<rparr>\<rparr>)))"
    and "state s7 = (state s)\<lparr>path := p, listing := items\<rparr>"
    and "errorMessage s7 = []"
    and "\<exists>pre. requests s7 = pre @
           map (\<lambda>it. ReqLatestCommitDate (owner (state s)) (repo (state s)) (item_path it)
                   (ref (state s))) items"
proof -
  let ?s4 = "openPath_start p s"
  let ?o = "owner (state s)" and ?r = "repo (state s)" and ?f = "ref (state s)"
  obtain res s5 where l: "loadListing A ?o ?r p ?f ?s4 = (res, s5)"
    by (cases "loadListing A ?o ?r p ?f ?s4")
  have "fst (loadListing A ?o ?r p ?f ?s4) = Inr items"
    using ok loadListing_fst_cong[of ?s4 s] by simp
  with l have res: "res = Inr items" by simp
  note f = loadListing_fields[OF l]
  let ?s6 = "s5\<lparr>state := (state s5)\<lparr>listing := items\<rparr>\<rparr>"
  let ?s7 = "?s6\<lparr>requests := requests ?s6 @
               map (\<lambda>it. ReqLatestCommitDate ?o ?r (item_path it) ?f) items\<rparr>"
  show thesis
  proof (rule that[of ?s7])
    show "openPath A p s =
       (case all_dates (map (\<lambda>it. (item_path it, getLatestCommitDate A ?o ?r (item_path it) ?f))
                  items) of
          Inl e \<Rightarrow> openPath_catch e ?s7
        | Inr dateEntries \<Rightarrow>
            showLoading False (renderFileList items
              (?s7\<lparr>state := (state ?s7)\<lparr>fileDates := Some (fromEntries dateEntries)\<rparr>\<rparr>)))"
      using act l res by (simp add: openPath_def Let_def split: sum.split)
    show "state ?s7 = (state s)\<lparr>path := p, listing := items\<rparr>"
      using f(1) by simp
    show "errorMessage ?s7 = []"
      using f(3) by simp
    show "\<exists>pre. requests ?s7 = pre @ map (\<lambda>it. ReqLatestCommitDate ?o ?r (item_path it) ?f) items"
      by simp
  qed
qed

lemma openPath_dates_ok:
  assumes act: "loaded (state s)" "owner (state s) \<noteq> []" "repo (state s) \<noteq> []"
    and ok: "fst (loadListing A (owner (state s)) (repo (state s)) p (ref (state s)) s) = Inr items"
    and dates: "\<forall>it \<in> set items.
        getLatestCommitDate A (owner (state s)) (repo (state s)) (item_path it) (ref (state s)) =
          Inr (d (item_path it))"
  shows "state (openPath A p s) =
           (state s)\<lparr>path := p, listing := items,
             fileDates := Some (\<lambda>k. if k \<in> item_path ` set items then Some (d k) else None)\<rparr>"
    and "fileList (openPath A p s) = items"
    and "errorMessage (openPath A p s) = []"
proof -
  let ?G = "\<lambda>k. getLatestCommitDate A (owner (state s)) (repo (state s)) k (ref (state s))"
  have a: "all_dates (map (\<lambda>it. (item_path it, ?G (item_path it))) items) =
             Inr (map (\<lambda>it. (item_path it, d (item_path it))) items)"
    using dates by (rule all_dates_ok)
  from openPath_fetch_ok[OF act ok] obtain s7 where
    o: "openPath A p s =
       (case all_dates (map (\<lambda>it. (item_path it, ?G (item_path it))) items) of
          Inl e \<Rightarrow> openPath_catch e s7
        | Inr dateEntries \<Rightarrow>
            showLoading False (renderFileList items
              (s7\<lparr>state := (state s7)\<lparr>fileDates := Some (fromEntries dateEntries)\<rparr>\<rparr>)))"
    and s7: "state s7 = (state s)\<lparr>path := p, listing := items\<rparr>" "errorMessage s7 = []"
    by blast
  show "state (openPath A p s) =
           (state s)\<lparr>path := p, listing := items,
             fileDates := Some (\<lambda>k. if k \<in> item_path ` set items then Some (d k) else None)\<rparr>"
    and "fileList (openPath A p s) = items"
    and "errorMessage (openPath A p s) = []"
    using s7 by (simp_all add: o a fromEntries_dates)
qed

lemma openPath_dates_fail:
  assumes act: "loaded (state s)" "owner (state s) \<noteq> []" "repo (state s) \<noteq> []"
    and ok: "fst (loadListing A (owner (state s)) (repo (state s)) p (ref (state s)) s) = Inr items"
    and fails: "\<exists>it \<in> set items. \<exists>e.
        getLatestCommitDate A (owner (state s)) (repo (state s)) (item_path it) (ref (state s)) =
          Inl e"
  shows "state (openPath A p s) =
           (state s)\<lparr>path := p, listing := items, fileDates := Some Map.empty\<rparr>"
    and "fileList (openPath A p s) = []"
    and "errorMessage (openPath A p s) \<noteq> []"
proof -
  let ?G = "\<lambda>k. getLatestCommitDate A (owner (state s)) (repo (state s)) k (ref (state s))"
  obtain e where a: "all_dates (map (\<lambda>it. (item_path it, ?G (item_path it))) items) = Inl e"
    using all_dates_fails[of items ?G] fails by blast
  from openPath_fetch_ok[OF act ok] obtain s7 where
    o: "openPath A p s =
       (case all_dates (map (\<lambda>it. (item_path it, ?G (item_path it))) items) of
          Inl e \<Rightarrow> openPath_catch e s7
        | Inr dateEntries \<Rightarrow>
            showLoading False (renderFileList items
              (s7\<lparr>state := (state s7)\<lparr>fileDates := Some (fromEntries dateEntries)\<rparr>\<rparr>)))"
    and s7: "state s7 = (state s)\<lparr>path := p, listing := items\<rparr>" "errorMessage s7 = []"
    by blast
  show "state (openPath A p s) =
           (state s)\<lparr>path := p, listing := items, fileDates := Some Map.empty\<rparr>"
    and "fileList (openPath A p s) = []"
    and "errorMessage (openPath A p s) \<noteq> []"
    using s7 by (simp_all add: o a)
qed

lemma openPath_requests:
  assumes act: "loaded (state s)" "owner (state s) \<noteq> []" "repo (state s) \<noteq> []"
    and ok: "fst (loadListing A (owner (state s)) (repo (state s)) p (ref (state s)) s) = Inr items"
  shows "\<exists>pre. requests (openPath A p s) = pre @
           map (\<lambda>it. ReqLatestCommitDate (owner (state s)) (repo (state s)) (item_path it)
                   (ref (state s))) items"
proof -
  from openPath_fetch_ok[OF act ok] obtain s7 where
    o: "openPath A p s =
       (case all_dates
               (map (\<lambda>it. (item_path it,
                       getLatestCommitDate A (owner (state s)) (repo (state s)) (item_path it)
                         (ref (state s))))
                  items) of
          Inl e \<Rightarrow> openPath_catch e s7
        | Inr dateEntries \<Rightarrow>
            showLoading False (renderFileList items
              (s7\<lparr>state := (state s7)\<lparr>fileDates := Some (fromEntries dateEntries)\<rparr>\<rparr>)))"
    and r: "\<exists>pre. requests s7 = pre @
           map (\<lambda>it. ReqLatestCommitDate (owner (state s)) (repo (state s)) (item_path it)
                   (ref (state s))) items"
    by blast
  show ?thesis
    using r by (simp add: o split: sum.splits)
qed

lemma openPath_listing_ok:
  assumes act: "loaded (state s)" "owner (state s) \<noteq> []" "repo (state s) \<noteq> []"
    and ok: "fst (loadListing A (owner (state s)) (repo (state s)) p (ref (state s)) s) = Inr items"
  shows "listing (state (openPath A p s)) = items"
proof -
  from openPath_fetch_ok[OF act ok] obtain s7 where
    o: "openPath A p s =
       (case all_dates
               (map (\<lambda>it. (item_path it,
                       getLatestCommitDate A (owner (state s)) (repo (state s)) (item_path it)
                         (ref (state s))))
                  items) of
          Inl e \<Rightarrow> openPath_catch e s7
        | Inr dateEntries \<Rightarrow>
            showLoading False (renderFileList items
              (s7\<lparr>state := (state s7)\<lparr>fileDates := Some (fromEntries dateEntries)\<rparr>\<rparr>)))"
    and s7: "state s7 = (state s)\<lparr>path := p, listing := items\<rparr>"
    by blast
  show ?thesis
    using s7 by (simp add: o split: sum.splits)
qed

lemma loaded_app_state:
  "state loaded_app =
     \<lparr>owner = ''o'', repo = ''r'', ref = ''main'', path = [], previewPath = None,
      listing = root_items,
      fileDates = Some (\<lambda>k. if k \<in> item_path ` set root_items then Some ''2024-01-01'' else None),
      loaded = True\<rparr>"
proof -
  let ?s0 = "(initial_app [])\<lparr>repoInput := ''o/r'', branchInput := []\<rparr>"
  have parts: "filter_Boolean (map trim (str_split CHR ''/'' (getRepoInput ?s0))) = [''o'', ''r'']"
    by code_simp
  let ?s1 = "showLoading True (clearError ?s0)"
  have miss: "repoCache ?s1 (''o'' @ ''/'' @ ''r'') = None"
    by (simp add: initial_app_def showLoading_def clearError_def showError_def)
  obtain s2 where l: "loadRepoInfo api_up ''o'' ''r'' ?s1 =
       (Inr \<lparr>default_branch = ''main'', full_name = ''o/r''\<rparr>, s2)"
    and s2: "listCache s2 = Map.empty"
    using loadRepoInfo_miss[OF miss, of api_up]
    by (simp add: api_up_def initial_app_def showLoading_def clearError_def showError_def
        issue_def)
  let ?st = "\<lparr>owner = ''o'', repo = ''r'', ref = ''main'', path = [], previewPath = None,
      listing = [], fileDates = None, loaded = True\<rparr>"
  let ?s5 = "applyStateToUrl (setRepoInput (''o'' @ ''/'' @ ''r'')
                (setBranchInput ''main'' (s2\<lparr>state := ?st\<rparr>)))"
  have d: "loaded_app = showLoading False (openPath api_up [] ?s5)"
    using parts l
    by (simp add: loaded_app_def doLoadRepo_def Let_def getBranchInput_def initial_app_def
        trim_def)
  have st5: "state ?s5 = ?st" by simp
  have fetch: "fst (loadListing api_up (owner (state ?s5)) (repo (state ?s5)) []
                  (ref (state ?s5)) ?s5) = Inr root_items"
    using s2 by (simp add: loadListing_miss setRepoInput_def setBranchInput_def api_up_def
        split: sum.splits)
  have "state (openPath api_up [] ?s5) =
          (state ?s5)\<lparr>path := [], listing := root_items,
             fileDates := Some (\<lambda>k. if k \<in> item_path ` set root_items
                                       then Some ((\<lambda>_. ''2024-01-01'') k) else None)\<rparr>"
    by (rule openPath_dates_ok[OF _ _ _ fetch]) (simp_all add: api_up_def)
  then show ?thesis
    by (simp add: d)
qed

lemma loaded_app_fetch:
  "fst (loadListing api_up ''o'' ''r'' ''sub'' ''main'' loaded_app) = Inr sub_items"
  "fst (loadListing api_dates_down ''o'' ''r'' ''sub'' ''main'' loaded_app) = Inr sub_items"
  "fst (loadListing api_down ''o'' ''r'' ''docs'' ''main'' loaded_app) = Inl not_found"
  by code_simp+

text \<open>
  C1. When \<open>openPath\<close> is not a no-op and its listing fetch succeeds, \<open>state.listing\<close> is the
  fetched listing and one lookup of the last-modified indicator per entry has gone out, as
  one batch, in the order of the entries. When every lookup of the batch resolves,
  \<open>state.fileDates\<close> has exactly the paths of the entries as keys and maps each to its
  indicator, and the entries are rendered with no error shown. When a lookup of the batch
  rejects, the batch is given up: \<open>state.fileDates\<close> is reset to the empty object, an error
  is shown and the list is rendered empty.
\<close>

theorem openPath_fileDates:
  assumes "loaded (state s)" "owner (state s) \<noteq> []" "repo (state s) \<noteq> []"
    and "fst (loadListing A (owner (state s)) (repo (state s)) p (ref (state s)) s) = Inr items"
  shows
   "listing (state (openPath A p s)) = items \<and>
    (\<exists>pre. requests (openPath A p s) = pre @
        map (\<lambda>it. ReqLatestCommitDate (owner (state s)) (repo (state s)) (item_path it)
                (ref (state s))) items) \<and>
    ((\<forall>it \<in> set items.
        getLatestCommitDate A (owner (state s)) (repo (state s)) (item_path it) (ref (state s)) =
          Inr (d (item_path it))) \<longrightarrow>
       fileDates (state (openPath A p s)) =
         Some (\<lambda>k. if k \<in> item_path ` set items then Some (d k) else None) \<and>
       fileList (openPath A p s) = items \<and> errorMessage (openPath A p s) = []) \<and>
    ((\<exists>it \<in> set items. \<exists>e.
        getLatestCommitDate A (owner (state s)) (repo (state s)) (item_path it) (ref (state s)) =
          Inl e) \<longrightarrow>
       fileDates (state (openPath A p s)) = Some Map.empty \<and>
       fileList (openPath A p s) = [] \<and> errorMessage (openPath A p s) \<noteq> [])"
proof (intro conjI impI)
  show "listing (state (openPath A p s)) = items"
    using assms by (rule openPath_listing_ok)
  show "\<exists>pre. requests (openPath A p s) = pre @
        map (\<lambda>it. ReqLatestCommitDate (owner (state s)) (repo (state s)) (item_path it)
                (ref (state s))) items"
    using assms by (rule openPath_requests)
next
  assume a: "\<forall>it \<in> set items.
        getLatestCommitDate A (owner (state s)) (repo (state s)) (item_path it) (ref (state s)) =
          Inr (d (item_path it))"
  note r = openPath_dates_ok[OF assms a]
  show "fileDates (state (openPath A p s)) =
         Some (\<lambda>k. if k \<in> item_path ` set items then Some (d k) else None)"
    by (simp add: r(1))
  show "fileList (openPath A p s) = items" by (rule r(2))
  show "errorMessage (openPath A p s) = []" by (rule r(3))
next
  assume a: "\<exists>it \<in> set items. \<exists>e.
        getLatestCommitDate A (owner (state s)) (repo (state s)) (item_path it) (ref (state s)) =
          Inl e"
  note r = openPath_dates_fail[OF assms a]
  show "fileDates (state (openPath A p s)) = Some Map.empty"
    by (simp add: r(1))
  show "fileList (openPath A p s) = []" by (rule r(2))
  show "errorMessage (openPath A p s) \<noteq> []" by (rule r(3))
qed

theorem openPath_fileDates_witness:
  "loaded (state loaded_app) \<and> owner (state loaded_app) = ''o'' \<and>
   repo (state loaded_app) = ''r'' \<and> ref (state loaded_app) = ''main'' \<and>
   fst (loadListing api_up ''o'' ''r'' ''sub'' ''main'' loaded_app) = Inr sub_items \<and>
   getLatestCommitDate api_up ''o'' ''r'' ''sub/a.txt'' ''main'' = Inr ''2024-01-01'' \<and>
   listing (state (openPath api_up ''sub'' loaded_app)) = sub_items \<and>
   fileDates (state (openPath api_up ''sub'' loaded_app)) =
     Some (\<lambda>k. if k \<in> item_path ` set sub_items then Some ''2024-01-01'' else None) \<and>
   fst (loadListing api_dates_down ''o'' ''r'' ''sub'' ''main'' loaded_app) = Inr sub_items \<and>
   getLatestCommitDate api_dates_down ''o'' ''r'' ''sub/a.txt'' ''main'' = Inl (Error ''rate limit'') \<and>
   fileDates (state (openPath api_dates_down ''sub'' loaded_app)) = Some Map.empty \<and>
   errorMessage (openPath api_dates_down ''sub'' loaded_app) \<noteq> []"
proof -
  have st: "loaded (state loaded_app)" "owner (state loaded_app) = ''o''"
    "repo (state loaded_app) = ''r''" "ref (state loaded_app) = ''main''"
    by (simp_all add: loaded_app_state)
  have g: "getLatestCommitDate api_up ''o'' ''r'' ''sub/a.txt'' ''main'' = Inr ''2024-01-01''"
    "getLatestCommitDate api_dates_down ''o'' ''r'' ''sub/a.txt'' ''main'' = Inl (Error ''rate limit'')"
    by (simp_all add: api_up_def api_dates_down_def)
  have up: "listing (state (openPath api_up ''sub'' loaded_app)) = sub_items \<and>
     fileDates (state (openPath api_up ''sub'' loaded_app)) =
       Some (\<lambda>k. if k \<in> item_path ` set sub_items then Some ''2024-01-01'' else None)"
    using openPath_fileDates[of loaded_app api_up "''sub''" sub_items "\<lambda>_. ''2024-01-01''"]
      st loaded_app_fetch(1) g(1)
    by (simp add: sub_items_def entry_def)
  have down: "fileDates (state (openPath api_dates_down ''sub'' loaded_app)) = Some Map.empty \<and>
     errorMessage (openPath api_dates_down ''sub'' loaded_app) \<noteq> []"
    using openPath_fileDates[of loaded_app api_dates_down "''sub''" sub_items]
      st loaded_app_fetch(2) g(2)
    by (simp add: sub_items_def entry_def)
  from st g up down loaded_app_fetch show ?thesis by simp
qed

theorem openPath_fileDates_counterexample:
  "loaded (state loaded_app) \<and> owner (state loaded_app) = ''o'' \<and>
   repo (state loaded_app) = ''r'' \<and> ref (state loaded_app) = ''main'' \<and>
   fst (loadListing api_dates_down ''o'' ''r'' ''sub'' ''main'' loaded_app) = Inr sub_items \<and>
   listing (state (openPath api_dates_down ''sub'' loaded_app)) = sub_items \<and>
   item_path (hd sub_items) = ''sub/a.txt'' \<and>
   fileDates (state (openPath api_dates_down ''sub'' loaded_app)) = Some Map.empty \<and>
   the (fileDates (state (openPath api_dates_down ''sub'' loaded_app))) ''sub/a.txt'' = None"
proof -
  have st: "loaded (state loaded_app)" "owner (state loaded_app) = ''o''"
    "repo (state loaded_app) = ''r''" "ref (state loaded_app) = ''main''"
    by (simp_all add: loaded_app_state)
  have f: "fst (loadListing api_dates_down (owner (state loaded_app)) (repo (state loaded_app))
             ''sub'' (ref (state loaded_app)) loaded_app) = Inr sub_items"
    by (simp add: st loaded_app_fetch)
  have e: "\<exists>it \<in> set sub_items. \<exists>e.
        getLatestCommitDate api_dates_down (owner (state loaded_app)) (repo (state loaded_app))
          (item_path it) (ref (state loaded_app)) = Inl e"
    by (simp add: api_dates_down_def sub_items_def)
  have "state (openPath api_dates_down ''sub'' loaded_app) =
          (state loaded_app)\<lparr>path := ''sub'', listing := sub_items, fileDates := Some Map.empty\<rparr>"
    by (rule openPath_dates_fail(1)[OF _ _ _ f e]) (simp_all add: st)
  with st loaded_app_fetch(2) show ?thesis
    by (simp add: sub_items_def entry_def)
qed

text \<open>
  C2. From the page that shows the root listing of \<open>o/r\<close>, \<open>openPath('docs')\<close> with a listing
  fetch that fails: the error is shown, \<open>state.path\<close> and the \<open>path\<close> parameter of the URL are
  \<open>docs\<close>, the rendered list is empty, but \<open>state.listing\<close> still holds the entries of the
  root: the \<open>catch\<close> block resets \<open>state.fileDates\<close> and renders \<open>[]\<close> without assigning
  \<open>state.listing\<close>. The next input into the filter field renders \<open>state.listing\<close>, and the
  entries of the root are on the page again, under the path \<open>docs\<close>.
\<close>

theorem failed_fetch_keeps_previous_listing:
  "loaded (state loaded_app) \<and> owner (state loaded_app) = ''o'' \<and>
   repo (state loaded_app) = ''r'' \<and> ref (state loaded_app) = ''main'' \<and>
   listing (state loaded_app) = root_items \<and>
   fst (loadListing api_down ''o'' ''r'' ''docs'' ''main'' loaded_app) = Inl not_found \<and>
   errorMessage (openPath api_down ''docs'' loaded_app) = message not_found \<and>
   path (state (openPath api_down ''docs'' loaded_app)) = ''docs'' \<and>
   get_or_empty (query (openPath api_down ''docs'' loaded_app)) ''path'' = ''docs'' \<and>
   fileList (openPath api_down ''docs'' loaded_app) = [] \<and>
   listing (state (openPath api_down ''docs'' loaded_app)) = root_items \<and>
   root_items \<noteq> [] \<and>
   fileList (step api_down (FilterInput []) (openPath api_down ''docs'' loaded_app)) = root_items"
proof -
  have st: "loaded (state loaded_app)" "owner (state loaded_app) = ''o''"
    "repo (state loaded_app) = ''r''" "ref (state loaded_app) = ''main''"
    "listing (state loaded_app) = root_items"
    by (simp_all add: loaded_app_state)
  have f: "fst (loadListing api_down (owner (state loaded_app)) (repo (state loaded_app))
             ''docs'' (ref (state loaded_app)) loaded_app) = Inl not_found"
    by (simp add: st loaded_app_fetch)
  note r = openPath_fetch_fails[OF _ _ _ f]
  have "state (openPath api_down ''docs'' loaded_app) =
          (state loaded_app)\<lparr>path := ''docs'', fileDates := Some Map.empty\<rparr>"
    by (rule r(1)) (simp_all add: st)
  moreover have "errorMessage (openPath api_down ''docs'' loaded_app) = message not_found"
    using r(2) by (simp add: st not_found_def)
  moreover have "fileList (openPath api_down ''docs'' loaded_app) = []"
    by (rule r(3)) (simp_all add: st)
  moreover have "get_or_empty (query (openPath api_down ''docs'' loaded_app)) ''path'' = ''docs''"
    using r(4) by (simp add: st get_or_empty_applyStateToUrl)
  ultimately show ?thesis
    using st loaded_app_fetch(3) by (simp add: root_items_def)
qed

theorem failed_fetch_keeps_previous_listing_witness:
  "path (state (openPath api_down ''docs'' loaded_app)) = ''docs'' \<and>
   listing (state (openPath api_down ''docs'' loaded_app)) =
     [entry ''index.html'' ''index.html'' ''file'', entry ''sub'' ''sub'' ''dir''] \<and>
   fileList (openPath api_down ''docs'' loaded_app) = []"
  using failed_fetch_keeps_previous_listing by (simp add: root_items_def)

section \<open>Invariants of the navigation state\<close>

lemma onSelect_frame:
  "owner (state (onSelect A p t s)) = owner (state s)"
  "repo (state (onSelect A p t s)) = repo (state s)"
  by (simp_all add: onSelect_def Let_def openPath_frame)

lemma onSelect_previewPath:
  "previewPath (state (onSelect A p t s)) = previewPath (state s) \<or>
   (previewPath (state (onSelect A p t s)) = Some p \<and> previewable p)"
  by (auto simp: onSelect_def Let_def openPath_frame previewable_def)

text \<open>\<open>doLoadRepo\<close> either leaves \<open>state\<close> as it is, or replaces it by a fresh object built
  from the parsed input and then opens the root.\<close>

lemma doLoadRepo_state:
  fixes A s
  defines "parts \<equiv> filter_Boolean (map trim (str_split CHR ''/'' (getRepoInput s)))"
  shows "state (snd (doLoadRepo A s)) = state s \<or>
         (length parts \<ge> 2 \<and>
          owner (state (snd (doLoadRepo A s))) = parts ! 0 \<and>
          repo (state (snd (doLoadRepo A s))) = str_join ''/'' (drop 1 parts) \<and>
          previewPath (state (snd (doLoadRepo A s))) = None)"
proof (cases "length parts < 2")
  case True
  then show ?thesis
    by (simp add: doLoadRepo_def Let_def parts_def)
next
  case False
  let ?s1 = "showLoading True (clearError s)"
  obtain res s2 where l: "loadRepoInfo A (parts ! 0) (str_join ''/'' (drop 1 parts)) ?s1 = (res, s2)"
    by (cases "loadRepoInfo A (parts ! 0) (str_join ''/'' (drop 1 parts)) ?s1")
  show ?thesis
  proof (cases res)
    case (Inl e)
    have "s2 = issue (ReqRepoInfo (parts ! 0) (str_join ''/'' (drop 1 parts))) ?s1"
      using loadRepoInfo_Inl(2) l Inl by blast
    then have "state (snd (doLoadRepo A s)) = state s"
      using False l Inl by (simp add: doLoadRepo_def Let_def parts_def)
    then show ?thesis by simp
  next
    case (Inr info)
    then show ?thesis
      using False l by (simp add: doLoadRepo_def Let_def parts_def openPath_frame)
  qed
qed

lemma preview_inv_doLoadRepo:
  "preview_inv (state s) \<Longrightarrow> preview_inv (state (snd (doLoadRepo A s)))"
  using doLoadRepo_state[of A s] by (auto simp: preview_inv_def)

lemma coord_inv_doLoadRepo:
  "coord_inv (state s) \<Longrightarrow> coord_inv (state (snd (doLoadRepo A s)))"
  using doLoadRepo_state[of A s] repo_input_coord_ok[of "getRepoInput s"]
  by (auto simp: coord_inv_def)

lemma preview_inv_openPath: "preview_inv (state (openPath A p s)) = preview_inv (state s)"
  by (simp add: preview_inv_def openPath_frame)

lemma coord_inv_openPath: "coord_inv (state (openPath A p s)) = coord_inv (state s)"
  by (simp add: coord_inv_def openPath_frame)

lemma preview_inv_onSelect:
  "preview_inv (state s) \<Longrightarrow> preview_inv (state (onSelect A p t s))"
  using onSelect_previewPath[of A p t s] by (auto simp: preview_inv_def)

lemma coord_inv_onSelect: "coord_inv (state (onSelect A p t s)) = coord_inv (state s)"
  by (simp add: coord_inv_def onSelect_frame)

lemma preview_inv_onPopState:
  "preview_inv (state s) \<Longrightarrow> preview_inv (state (onPopState A s))"
  by (auto simp: onPopState_def preview_inv_def openPath_frame split: prod.splits)

lemma coord_inv_onPopState:
  "coord_inv (state s) \<Longrightarrow> coord_inv (state (onPopState A s))"
  by (auto simp: onPopState_def coord_inv_def openPath_frame
      dest: parseQueryParams_coord_ok split: prod.splits)

lemma input_state [simp]:
  "state (s\<lparr>repoInput := r, branchInput := b\<rparr>) = state s"
  "state (s\<lparr>query := q\<rparr>) = state s"
  by simp_all

lemma initFromUrl_cases:
  "\<exists>s1. state s1 = state s \<and>
     (initFromUrl A s = s \<or>
      initFromUrl A s = snd (doLoadRepo A s1) \<or>
      (\<exists>p d. initFromUrl A s = onSelect A p ''file'' (openPath A d (snd (doLoadRepo A s1)))) \<or>
      (\<exists>p. initFromUrl A s = openPath A p (snd (doLoadRepo A s1))))"
proof -
  obtain ownr rpo rf p where pq: "parseQueryParams (query s) = (ownr, rpo, rf, p)"
    by (cases "parseQueryParams (query s)") auto
  let ?s1 = "setBranchInput rf (setRepoInput (ownr @ ''/'' @ rpo) s)"
  obtain res s2 where dl: "doLoadRepo A ?s1 = (res, s2)"
    by (cases "doLoadRepo A ?s1")
  have "initFromUrl A s = s \<or>
      initFromUrl A s = snd (doLoadRepo A ?s1) \<or>
      (\<exists>p d. initFromUrl A s = onSelect A p ''file'' (openPath A d (snd (doLoadRepo A ?s1)))) \<or>
      (\<exists>p. initFromUrl A s = openPath A p (snd (doLoadRepo A ?s1)))"
    using pq dl by (cases res) (auto simp: initFromUrl_def Let_def)
  moreover have "state ?s1 = state s" by simp
  ultimately show ?thesis by blast
qed

lemma preview_inv_initFromUrl:
  assumes "preview_inv (state s)"
  shows "preview_inv (state (initFromUrl A s))"
proof -
  obtain s1 where s1: "state s1 = state s" and
    c: "initFromUrl A s = s \<or>
      initFromUrl A s = snd (doLoadRepo A s1) \<or>
      (\<exists>p d. initFromUrl A s = onSelect A p ''file'' (openPath A d (snd (doLoadRepo A s1)))) \<or>
      (\<exists>p. initFromUrl A s = openPath A p (snd (doLoadRepo A s1)))"
    using initFromUrl_cases[of s A] by blast
  have d: "preview_inv (state (snd (doLoadRepo A s1)))"
    using assms s1 by (simp add: preview_inv_doLoadRepo)
  have "preview_inv (state (onSelect A p t (openPath A d (snd (doLoadRepo A s1)))))" for p t d
    using d by (intro preview_inv_onSelect) (simp add: preview_inv_openPath)
  with c show ?thesis
    using assms d by (auto simp: preview_inv_openPath)
qed

lemma coord_inv_initFromUrl:
  assumes "coord_inv (state s)"
  shows "coord_inv (state (initFromUrl A s))"
proof -
  obtain s1 where s1: "state s1 = state s" and
    c: "initFromUrl A s = s \<or>
      initFromUrl A s = snd (doLoadRepo A s1) \<or>
      (\<exists>p d. initFromUrl A s = onSelect A p ''file'' (openPath A d (snd (doLoadRepo A s1)))) \<or>
      (\<exists>p. initFromUrl A s = openPath A p (snd (doLoadRepo A s1)))"
    using initFromUrl_cases[of s A] by blast
  have d: "coord_inv (state (snd (doLoadRepo A s1)))"
    using assms s1 by (simp add: coord_inv_doLoadRepo)
  from c show ?thesis
    using assms d by (auto simp: coord_inv_openPath coord_inv_onSelect)
qed

lemma preview_inv_step: "preview_inv (state s) \<Longrightarrow> preview_inv (state (step A ev s))"
  by (cases ev)
     (simp_all add: preview_inv_doLoadRepo preview_inv_openPath preview_inv_onSelect
        preview_inv_onPopState preview_inv_initFromUrl)

lemma coord_inv_step: "coord_inv (state s) \<Longrightarrow> coord_inv (state (step A ev s))"
  by (cases ev)
     (simp_all add: coord_inv_doLoadRepo coord_inv_openPath coord_inv_onSelect
        coord_inv_onPopState coord_inv_initFromUrl)

lemma preview_inv_run: "preview_inv (state s) \<Longrightarrow> preview_inv (state (run tr s))"
  by (induction tr s rule: run.induct) (simp_all add: preview_inv_step)

lemma coord_inv_run: "coord_inv (state s) \<Longrightarrow> coord_inv (state (run tr s))"
  by (induction tr s rule: run.induct) (simp_all add: coord_inv_step)

lemma preview_inv_initial: "preview_inv (state (initial_app q))"
  by (simp add: initial_app_def initial_state_def preview_inv_def)

lemma coord_inv_initial: "coord_inv (state (initial_app q))"
  by (simp add: initial_app_def initial_state_def coord_inv_def)

lemma sample_runs:
  "loaded_app = run [(api_up, LoadRepo ''o/r'' [])] (initial_app [])"
  "previewing_app =
     run [(api_up, LoadRepo ''o/r'' []), (api_up, Select ''index.html'' ''file'')] (initial_app [])"
  "openPath api_up ''sub'' loaded_app =
     run [(api_up, LoadRepo ''o/r'' []), (api_up, OpenPath ''sub'')] (initial_app [])"
  by (simp_all add: previewing_app_def loaded_app_def)

lemma previewing_app_state:
  "state previewing_app = (state loaded_app)\<lparr>previewPath := Some ''index.html''\<rparr>"
proof -
  have "ext_of ''index.html'' = ''html''" by code_simp
  then show ?thesis
    by (simp add: previewing_app_def onSelect_def Let_def)
qed

text \<open>
  C3. Every transition keeps this much of the invariant: \<open>previewPath\<close>, when set, is a path
  that passed the extension test of \<open>onSelect\<close> (the text after the last dot of its last
  segment is \<open>html\<close> or \<open>htm\<close> in any capitalisation), selected with a kind other than
  \<open>dir\<close>. It holds at the start and after \<open>doLoadRepo\<close>, \<open>openPath\<close>, \<open>onSelect\<close>, the
  \<open>popstate\<close> listener, \<open>initFromUrl\<close> and the filter input, hence after every run of the
  page. Membership in \<open>listing\<close> is not part of it.
\<close>

theorem previewPath_invariant:
  "preview_inv (state (initial_app q)) \<and>
   (preview_inv (state s) \<longrightarrow>
      preview_inv (state (snd (doLoadRepo A s))) \<and>
      preview_inv (state (openPath A p s)) \<and>
      preview_inv (state (onSelect A p t s)) \<and>
      preview_inv (state (step A ev s))) \<and>
   preview_inv (state (run tr (initial_app q)))"
  by (simp add: preview_inv_step preview_inv_doLoadRepo preview_inv_openPath
      preview_inv_onSelect preview_inv_run preview_inv_initial)

theorem previewPath_invariant_witness:
  "preview_inv (state loaded_app) \<and>
   previewPath (state (onSelect api_up ''index.html'' ''file'' loaded_app)) = Some ''index.html'' \<and>
   preview_inv (state (onSelect api_up ''index.html'' ''file'' loaded_app)) \<and>
   preview_inv (state (openPath api_up ''sub'' loaded_app)) \<and>
   preview_inv (state (step api_up (Select ''sub'' ''dir'') previewing_app))"
proof -
  have a: "preview_inv (state loaded_app)" "preview_inv (state previewing_app)"
    using previewPath_invariant[of "[]" _ _ _ _ _ "[(api_up, LoadRepo ''o/r'' [])]"]
      previewPath_invariant[of "[]" _ _ _ _ _
        "[(api_up, LoadRepo ''o/r'' []), (api_up, Select ''index.html'' ''file'')]"]
    by (simp_all only: sample_runs)
  have b: "previewPath (state (onSelect api_up ''index.html'' ''file'' loaded_app)) =
             Some ''index.html''"
    using previewing_app_state by (simp add: previewing_app_def)
  show ?thesis
    using a b
      previewPath_invariant[of "[]" loaded_app api_up "''index.html''" "''file''"]
      previewPath_invariant[of "[]" loaded_app api_up "''sub''"]
      previewPath_invariant[of "[]" previewing_app api_up _ _ "Select ''sub'' ''dir''"]
    by simp
qed

text \<open>The invariant in the spec's words holds after the click on \<open>index.html\<close> and is broken
  by the next click, on the directory \<open>sub\<close>: \<open>openPath\<close> replaces the listing and leaves
  \<open>previewPath\<close> alone.\<close>

theorem previewPath_invariant_counterexample:
  "previewing_app =
     run [(api_up, LoadRepo ''o/r'' []), (api_up, Select ''index.html'' ''file'')]
       (initial_app []) \<and>
   claimed_preview_inv (state previewing_app) \<and>
   previewPath (state (step api_up (Select ''sub'' ''dir'') previewing_app)) = Some ''index.html'' \<and>
   listing (state (step api_up (Select ''sub'' ''dir'') previewing_app)) = sub_items \<and>
   \<not> claimed_preview_inv (state (step api_up (Select ''sub'' ''dir'') previewing_app))"
proof -
  have e: "ext_of ''index.html'' = ''html''" by code_simp
  have a: "claimed_preview_inv (state previewing_app)"
    by (simp add: previewing_app_state loaded_app_state claimed_preview_inv_def root_items_def
        entry_def previewable_def e)
  have st: "loaded (state previewing_app)" "owner (state previewing_app) = ''o''"
    "repo (state previewing_app) = ''r''" "ref (state previewing_app) = ''main''"
    by (simp_all add: previewing_app_state loaded_app_state)
  have "listCache previewing_app = listCache loaded_app"
    by (simp add: previewing_app_def onSelect_def Let_def e)
  then have f: "fst (loadListing api_up (owner (state previewing_app)) (repo (state previewing_app))
              ''sub'' (ref (state previewing_app)) previewing_app) = Inr sub_items"
    using loadListing_fst_cong[of previewing_app loaded_app] loaded_app_fetch(1) by (simp add: st)
  have l: "listing (state (openPath api_up ''sub'' previewing_app)) = sub_items"
    by (rule openPath_listing_ok[OF _ _ _ f]) (simp_all add: st)
  have p: "previewPath (state (openPath api_up ''sub'' previewing_app)) = Some ''index.html''"
    by (simp add: openPath_frame previewing_app_state)
  have "\<not> claimed_preview_inv (state (openPath api_up ''sub'' previewing_app))"
    by (simp add: claimed_preview_inv_def l p sub_items_def entry_def)
  with a l p sample_runs(2) show ?thesis
    by (simp add: onSelect_def)
qed

section \<open>The shareable state encoding\<close>

text \<open>
  C9. For every state of the page with non-empty \<open>owner\<close> and \<open>repo\<close>, writing the state into
  the query string (\<open>applyStateToUrl\<close>) and reading the query string back
  (\<open>parseQueryParams\<close>) gives the state's \<open>owner\<close>, \<open>repo\<close>, \<open>ref\<close> and \<open>path\<close>. The states
  of the page are those a run of the handlers produces from the initial one, whatever the
  events and the API's answers; there \<open>owner\<close> has no slash and \<open>repo\<close> has no empty
  segment.
\<close>

theorem query_round_trip:
  assumes "s = run tr (initial_app q)" and "owner (state s) \<noteq> []" and "repo (state s) \<noteq> []"
  shows "parseQueryParams (query (applyStateToUrl s)) =
           (owner (state s), repo (state s), ref (state s), path (state s))"
proof -
  have "coord_inv (state s)"
    unfolding assms(1) using coord_inv_initial by (rule coord_inv_run)
  with assms(2) have "coord_ok (owner (state s)) (repo (state s))"
    by (simp add: coord_inv_def)
  then show ?thesis by (rule roundtrip)
qed

theorem query_round_trip_witness:
  "openPath api_up ''sub'' loaded_app =
     run [(api_up, LoadRepo ''o/r'' []), (api_up, OpenPath ''sub'')] (initial_app []) \<and>
   owner (state (openPath api_up ''sub'' loaded_app)) = ''o'' \<and>
   repo (state (openPath api_up ''sub'' loaded_app)) = ''r'' \<and>
   parseQueryParams (query (applyStateToUrl (openPath api_up ''sub'' loaded_app))) =
     (''o'', ''r'', ''main'', ''sub'')"
proof -
  note r = sample_runs(3)
  have st: "loaded (state loaded_app)" "owner (state loaded_app) = ''o''"
    "repo (state loaded_app) = ''r''" "ref (state loaded_app) = ''main''"
    by (simp_all add: loaded_app_state)
  have f: "fst (loadListing api_up (owner (state loaded_app)) (repo (state loaded_app))
             ''sub'' (ref (state loaded_app)) loaded_app) = Inr sub_items"
    by (simp add: st loaded_app_fetch)
  have "state (openPath api_up ''sub'' loaded_app) =
          (state loaded_app)\<lparr>path := ''sub'', listing := sub_items,
             fileDates := Some (\<lambda>k. if k \<in> item_path ` set sub_items
                                       then Some ((\<lambda>_. ''2024-01-01'') k) else None)\<rparr>"
    by (rule openPath_dates_ok(1)[OF _ _ _ f]) (simp_all add: st api_up_def)
  then have s: "owner (state (openPath api_up ''sub'' loaded_app)) = ''o''"
    "repo (state (openPath api_up ''sub'' loaded_app)) = ''r''"
    "ref (state (openPath api_up ''sub'' loaded_app)) = ''main''"
    "path (state (openPath api_up ''sub'' loaded_app)) = ''sub''"
    by (simp_all add: st)
  show ?thesis
    using query_round_trip[OF r] r s by simp
qed

section \<open>Further properties\<close>

subsection \<open>The Rewriter, element by element\<close>

lemma elements_rewriteTag:
  "elements (rewriteTag U b tag names d) = map (rewriteRound U b tag names) (elements d)"
proof (induction d)
  case (Element t as cs)
  have "concat (map (\<lambda>c. elements (rewriteTag U b tag names c)) cs) =
        concat (map (\<lambda>c. map (rewriteRound U b tag names) (elements c)) cs)"
    using Element.IH by (simp cong: map_cong)
  moreover have "rewriteRound U b tag names (t, as) =
      (t, if t = tag \<and> getAttribute as (attr0 names) \<noteq> None
          then fold (\<lambda>attr as'. rewriteAttr U b as' attr) names as else as)"
    by (simp add: rewriteRound_def)
  ultimately show ?case
    by (simp add: map_concat comp_def)
next
  case (Text s)
  show ?case by simp
qed

lemma elements_rounds:
  "elements (fold (\<lambda>(tag, names) d. rewriteTag U b tag names d) regs d) =
     map (fold (\<lambda>(tag, names) e. rewriteRound U b tag names e) regs) (elements d)"
proof (induction regs arbitrary: d)
  case Nil
  show ?case by simp
next
  case (Cons r regs)
  obtain tag names where r: "r = (tag, names)" by (cases r)
  show ?case
    by (simp add: r Cons.IH elements_rewriteTag comp_def)
qed

lemma rounds_other_tags:
  "t \<notin> fst ` set regs \<Longrightarrow>
   fold (\<lambda>(tag, names) e. rewriteRound U b tag names e) regs (t, as) = (t, as)"
  by (induction regs) (auto simp: rewriteRound_def)

lemma rounds_element:
  "distinct (map fst regs) \<Longrightarrow>
   fold (\<lambda>(tag, names) e. rewriteRound U b tag names e) regs (t, as) =
     (case map_of regs t of
        None \<Rightarrow> (t, as)
      | Some names \<Rightarrow> rewriteRound U b t names (t, as))"
proof (induction regs)
  case Nil
  show ?case by simp
next
  case (Cons r regs)
  obtain tag names where r: "r = (tag, names)" by (cases r)
  show ?case
  proof (cases "tag = t")
    case True
    obtain as' where e: "rewriteRound U b t names (t, as) = (t, as')"
      by (simp add: rewriteRound_def)
    have "t \<notin> fst ` set regs" using Cons.prems r True by auto
    then show ?thesis
      using True r e by (simp add: rounds_other_tags)
  next
    case False
    have "rewriteRound U b tag names (t, as) = (t, as)"
      using False by (simp add: rewriteRound_def)
    then show ?thesis
      using Cons False r by simp
  qed
qed

lemma URL_ATTRS_distinct: "distinct (map fst URL_ATTRS)"
  by (simp add: URL_ATTRS_def)

text \<open>
  X1. The elements of the rewritten document are those of the parsed one, each passed
  through \<^const>\<open>rewriteElement\<close>: an element whose tag is in the registry and that carries the
  first listed attribute has every listed attribute looked at; every other element is as it
  was.
\<close>

theorem rewriteDocument_elements:
  "elements (rewriteDocument U doc baseRawDirUrl) =
     map (rewriteElement U baseRawDirUrl) (elements doc)"
proof -
  have "fold (\<lambda>(tag, names) e. rewriteRound U baseRawDirUrl tag names e) URL_ATTRS (t, as) =
          rewriteElement U baseRawDirUrl (t, as)" for t as
    by (simp add: rounds_element[OF URL_ATTRS_distinct] rewriteElement_def split: option.split)
  then have "fold (\<lambda>(tag, names) e. rewriteRound U baseRawDirUrl tag names e) URL_ATTRS =
          rewriteElement U baseRawDirUrl"
    by (simp add: fun_eq_iff)
  then show ?thesis
    by (simp add: rewriteDocument_def elements_rounds)
qed

lemma getAttribute_setAttribute:
  "getAttribute (setAttribute as n v) m = (if m = n then Some v else getAttribute as m)"
  by (induction as) (auto simp: getAttribute_def)

lemma getAttribute_rewriteAttr:
  "getAttribute (rewriteAttr U b as n) m =
     (if m = n
      then (case getAttribute as n of
              None \<Rightarrow> None
            | Some u \<Rightarrow> Some (if u \<noteq> [] \<and> \<not> isAbsoluteOrSpecial (Some u)
                              then resolveUrl U u b else u))
      else getAttribute as m)"
  by (simp add: rewriteAttr_def getAttribute_setAttribute split: option.splits)

lemma URL_ATTRS_names:
  "map_of URL_ATTRS t = Some names \<Longrightarrow>
   names = [''href''] \<or> names = [''src''] \<or> names = [''src'', ''poster'']"
  by (auto simp: URL_ATTRS_def split: if_splits)

text \<open>
  X2. On an element of a registered kind that carries the first attribute of its registry
  entry, every listed attribute that is present, non-empty and marked rewritable by the
  Classifier is replaced by the Resolver's output.
\<close>

theorem listed_attribute_is_resolved:
  assumes "map_of URL_ATTRS t = Some names"
    and "getAttribute as (attr0 names) \<noteq> None"
    and "attr \<in> set names"
    and "getAttribute as attr = Some u"
    and "u \<noteq> []" and "\<not> isAbsoluteOrSpecial (Some u)"
  shows "getAttribute (snd (rewriteElement U b (t, as))) attr = Some (resolveUrl U u b)"
proof -
  have e: "snd (rewriteElement U b (t, as)) = fold (\<lambda>attr as'. rewriteAttr U b as' attr) names as"
    using assms(1,2) by (simp add: rewriteElement_def rewriteRound_def)
  from URL_ATTRS_names[OF assms(1)] show ?thesis
    using assms(3-6) by (auto simp: e getAttribute_rewriteAttr)
qed

theorem listed_attribute_is_resolved_witness:
  "getAttribute (snd (rewriteElement sample_URL ''https://h/o/r/ref/dir''
       (''video'', [(''src'', ''v.mp4''), (''poster'', ''img/p.png'')]))) ''poster'' =
     Some ''https://h/o/r/ref/dir/img/p.png''"
proof -
  have a: "map_of URL_ATTRS ''video'' = Some [''src'', ''poster'']"
    by (simp add: URL_ATTRS_def)
  have b: "\<not> isAbsoluteOrSpecial (Some ''img/p.png'')"
    by (simp add: isAbsoluteOrSpecial_def trim_def isWhiteSpace_def)
  have c: "resolveUrl sample_URL ''img/p.png'' ''https://h/o/r/ref/dir'' =
             ''https://h/o/r/ref/dir/img/p.png''"
    by code_simp
  show ?thesis
    using listed_attribute_is_resolved[OF a, of "[(''src'', ''v.mp4''), (''poster'', ''img/p.png'')]"
        "''poster''" "''img/p.png''" sample_URL "''https://h/o/r/ref/dir''"] b c
    by (simp add: getAttribute_def attr0_def)
qed

lemma rewriteAttr_special:
  "isAbsoluteOrSpecial (getAttribute as attr) \<Longrightarrow> rewriteAttr U b as attr = as"
  by (cases "getAttribute as attr") (simp_all add: rewriteAttr_def)

lemma fold_rewriteAttr_special:
  "list_all (\<lambda>attr. isAbsoluteOrSpecial (getAttribute as attr)) names \<Longrightarrow>
   fold (\<lambda>attr as'. rewriteAttr U b as' attr) names as = as"
  by (induction names) (simp_all add: rewriteAttr_special)

lemma rewriteTag_no_rewritable:
  assumes "map_of URL_ATTRS tag = Some names"
  shows "no_rewritable d \<Longrightarrow> rewriteTag U b tag names d = d"
proof (induction d)
  case (Element t as cs)
  have kids: "list_all no_rewritable cs"
    using Element.prems by (auto simp: no_rewritable_def list_all_iff)
  have "map (rewriteTag U b tag names) cs = cs"
    using Element.IH kids by (intro map_idI) (simp add: list_all_iff)
  moreover have "fold (\<lambda>attr as'. rewriteAttr U b as' attr) names as = as" if "t = tag"
    using Element.prems assms that by (simp add: no_rewritable_def fold_rewriteAttr_special)
  ultimately show ?case by simp
next
  case (Text s)
  show ?case by simp
qed

lemma rounds_no_rewritable:
  "\<forall>(tag, names) \<in> set regs. map_of URL_ATTRS tag = Some names \<Longrightarrow> no_rewritable d \<Longrightarrow>
   fold (\<lambda>(tag, names) d. rewriteTag U b tag names d) regs d = d"
  by (induction regs) (auto simp: rewriteTag_no_rewritable)

text \<open>
  X3. Rewriting a document that contains no rewritable references changes nothing, so
  rewriting it twice gives what rewriting it once gives.
\<close>

theorem rewrite_without_rewritable_is_idempotent:
  assumes "no_rewritable doc"
  shows "rewriteDocument U doc b = doc \<and>
         rewriteDocument U (rewriteDocument U doc b) b = rewriteDocument U doc b"
proof -
  have "\<forall>(tag, names) \<in> set URL_ATTRS. map_of URL_ATTRS tag = Some names"
    using URL_ATTRS_distinct by (auto intro: map_of_is_SomeI)
  then have "rewriteDocument U doc b = doc"
    unfolding rewriteDocument_def using assms by (rule rounds_no_rewritable)
  then show ?thesis by simp
qed

theorem rewrite_without_rewritable_is_idempotent_witness:
  "no_rewritable (Element ''p'' [] [Element ''a'' [(''href'', ''#top'')] [Text ''up''],
      Element ''video'' [(''poster'', ''https://h/p.png'')] []]) \<and>
   rewriteDocument sample_URL (Element ''p'' [] [Element ''a'' [(''href'', ''#top'')] [Text ''up''],
      Element ''video'' [(''poster'', ''https://h/p.png'')] []]) ''https://h/d'' =
     Element ''p'' [] [Element ''a'' [(''href'', ''#top'')] [Text ''up''],
      Element ''video'' [(''poster'', ''https://h/p.png'')] []]"
proof -
  have b: "no_rewritable (Element ''p'' [] [Element ''a'' [(''href'', ''#top'')] [Text ''up''],
      Element ''video'' [(''poster'', ''https://h/p.png'')] []])"
    by code_simp
  show ?thesis
    using b rewrite_without_rewritable_is_idempotent[OF b, of sample_URL "''https://h/d''"]
    by simp
qed

subsection \<open>The Navigation Controller\<close>

text \<open>
  X4. Whenever \<open>openPath\<close> is not a no-op and its listing fetch fails: the error's message
  is shown (\<open>Failed to load\<close> for an empty one), \<open>state.path\<close> and the \<open>path\<close> parameter of
  the URL are the attempted destination, \<open>state.fileDates\<close> is reset to the empty object,
  the list is rendered empty, and the other fields of \<open>state\<close>, \<open>listing\<close> among them, are
  as before the call.
\<close>

theorem listing_fetch_failure:
  assumes "loaded (state s)" "owner (state s) \<noteq> []" "repo (state s) \<noteq> []"
    and "fst (loadListing A (owner (state s)) (repo (state s)) p (ref (state s)) s) = Inl e"
  shows "state (openPath A p s) = (state s)\<lparr>path := p, fileDates := Some Map.empty\<rparr> \<and>
         errorMessage (openPath A p s) =
           (if message e \<noteq> [] then message e else ''Failed to load'') \<and>
         errorMessage (openPath A p s) \<noteq> [] \<and>
         get_or_empty (query (openPath A p s)) ''path'' = p \<and>
         fileList (openPath A p s) = []"
proof -
  note r = openPath_fetch_fails[OF assms]
  have "get_or_empty (query (openPath A p s)) ''path'' = p"
    by (simp add: r(4) get_or_empty_applyStateToUrl)
  with r show ?thesis by simp
qed

theorem listing_fetch_failure_witness:
  "loaded (state loaded_app) \<and> owner (state loaded_app) = ''o'' \<and>
   repo (state loaded_app) = ''r'' \<and> ref (state loaded_app) = ''main'' \<and>
   fst (loadListing api_down ''o'' ''r'' ''docs'' ''main'' loaded_app) = Inl not_found \<and>
   state (openPath api_down ''docs'' loaded_app) =
     (state loaded_app)\<lparr>path := ''docs'', fileDates := Some Map.empty\<rparr> \<and>
   errorMessage (openPath api_down ''docs'' loaded_app) = message not_found"
proof -
  have st: "loaded (state loaded_app)" "owner (state loaded_app) = ''o''"
    "repo (state loaded_app) = ''r''" "ref (state loaded_app) = ''main''"
    by (simp_all add: loaded_app_state)
  have f: "fst (loadListing api_down (owner (state loaded_app)) (repo (state loaded_app))
             ''docs'' (ref (state loaded_app)) loaded_app) = Inl not_found"
    by (simp add: st loaded_app_fetch)
  have "state (openPath api_down ''docs'' loaded_app) =
     (state loaded_app)\<lparr>path := ''docs'', fileDates := Some Map.empty\<rparr> \<and>
   errorMessage (openPath api_down ''docs'' loaded_app) = message not_found"
    using listing_fetch_failure[OF _ _ _ f] st by (simp add: not_found_def)
  with st loaded_app_fetch(3) show ?thesis by simp
qed

text \<open>
  X5. \<open>onSelect\<close> with a kind other than \<open>dir\<close>: a path that passes the extension test
  becomes \<open>previewPath\<close> and the error is cleared; any other path leaves \<open>state\<close> as it is and
  shows the validation message. With kind \<open>dir\<close> it is \<open>openPath\<close>.
\<close>

theorem onSelect_behaviour:
  "onSelect A p ''dir'' s = openPath A p s \<and>
   (t \<noteq> ''dir'' \<longrightarrow>
      (previewable p \<longrightarrow>
         state (onSelect A p t s) = (state s)\<lparr>previewPath := Some p\<rparr> \<and>
         errorMessage (onSelect A p t s) = []) \<and>
      (\<not> previewable p \<longrightarrow>
         state (onSelect A p t s) = state s \<and>
         errorMessage (onSelect A p t s) = ''Only .html / .htm files can be previewed.''))"
  by (simp add: onSelect_def Let_def previewable_def)

theorem onSelect_behaviour_witness:
  "\<not> previewable ''readme.md'' \<and>
   state (onSelect api_up ''readme.md'' ''file'' loaded_app) = state loaded_app \<and>
   errorMessage (onSelect api_up ''readme.md'' ''file'' loaded_app) =
     ''Only .html / .htm files can be previewed.'' \<and>
   previewable ''index.html'' \<and>
   previewPath (state (onSelect api_up ''index.html'' ''file'' loaded_app)) = Some ''index.html'' \<and>
   previewable ''docs/Page.HTM''"
proof -
  have a: "\<not> previewable ''readme.md''" "previewable ''index.html''"
    "previewable ''docs/Page.HTM''"
    by code_simp+
  show ?thesis
    using a onSelect_behaviour[of api_up "''readme.md''" loaded_app "''file''"]
      onSelect_behaviour[of api_up "''index.html''" loaded_app "''file''"]
    by simp
qed

text \<open>
  X6. Loading \<open>o/r\<close> with an empty branch field, from a fresh page, when the repository's
  default branch is \<open>main\<close>: the state is \<open>{owner: o, repo: r, ref: main, path: ''}\<close> with the
  root listing, and the query string is \<open>?repo=o/r&ref=main\<close>.
\<close>

theorem load_repository_example:
  "owner (state loaded_app) = ''o'' \<and> repo (state loaded_app) = ''r'' \<and>
   ref (state loaded_app) = ''main'' \<and> path (state loaded_app) = [] \<and>
   listing (state loaded_app) = root_items \<and> loaded (state loaded_app) \<and>
   query loaded_app = [(''repo'', ''o/r''), (''ref'', ''main'')] \<and>
   requests loaded_app =
     [ReqRepoInfo ''o'' ''r'', ReqListContents ''o'' ''r'' [] ''main'',
      ReqLatestCommitDate ''o'' ''r'' ''index.html'' ''main'',
      ReqLatestCommitDate ''o'' ''r'' ''sub'' ''main'']"
proof -
  have "query loaded_app = [(''repo'', ''o/r''), (''ref'', ''main'')]"
    by code_simp
  moreover have "requests loaded_app =
     [ReqRepoInfo ''o'' ''r'', ReqListContents ''o'' ''r'' [] ''main'',
      ReqLatestCommitDate ''o'' ''r'' ''index.html'' ''main'',
      ReqLatestCommitDate ''o'' ''r'' ''sub'' ''main'']"
    by code_simp
  ultimately show ?thesis
    by (simp add: loaded_app_state)
qed

end
